theory Spec2Isabelle
  imports Main "HOL-Library.AList" "HOL-Library.Sublist"
begin

section \<open>Documents and values\<close>

text \<open>
  Modelled from the spec: the Document/Value representation (document.h, value.h) is an
  external contract of the projection code. A value is one of missing, scalar,
  nested document or array of values; a document is an ordered sequence of named
  slots together with a metadata side-channel. A slot may hold the missing value:
  such a slot keeps its position but is not a field of the document.
\<close>

datatype scalar = SNull | SBool bool | SInt int | SString string

type_synonym metadata = "(string \<times> scalar) list"

datatype Value =
    Missing
  | Scalar scalar
  | Object "(string \<times> Value) list" metadata
  | Array "Value list"

type_synonym slots = "(string \<times> Value) list"

record Document =
  docFields :: slots
  docMeta :: metadata

definition emptyDocument :: Document where
  "emptyDocument = \<lparr>docFields = [], docMeta = []\<rparr>"

text \<open>\<open>Value::missing()\<close>, \<open>Value::isArray()\<close>.\<close>

definition missing :: "Value \<Rightarrow> bool" where
  "missing v = (case v of Missing \<Rightarrow> True | _ \<Rightarrow> False)"

definition isArray :: "Value \<Rightarrow> bool" where
  "isArray v = (case v of Array _ \<Rightarrow> True | _ \<Rightarrow> False)"

text \<open>
  Modelled from the spec: \<open>MutableDocument::setField\<close> writes into the slot of that
  name, keeping its position, and appends a new slot when there is none;
  \<open>addField\<close> appends; \<open>doc[name]\<close> is the slot's value, missing when there is no
  such slot; the field iterator yields the fields in their original order (a slot
  holding missing is not a field).
\<close>

definition setField :: "string \<Rightarrow> Value \<Rightarrow> slots \<Rightarrow> slots" where
  "setField k v fs = AList.update k v fs"

definition addField :: "string \<Rightarrow> Value \<Rightarrow> slots \<Rightarrow> slots" where
  "addField k v fs = fs @ [(k, v)]"

definition getField :: "slots \<Rightarrow> string \<Rightarrow> Value" where
  "getField fs k = (case map_of fs k of Some v \<Rightarrow> v | None \<Rightarrow> Missing)"

definition fieldIterator :: "slots \<Rightarrow> slots" where
  "fieldIterator fs = filter (\<lambda>kv. \<not> missing (snd kv)) fs"

definition copyMetaDataFrom :: "Document \<Rightarrow> Document \<Rightarrow> Document" where
  "copyMetaDataFrom src out = out\<lparr>docMeta := docMeta src\<rparr>"

section \<open>Policies and the projection tree\<close>

datatype ArrayRecursionPolicy = kRecurseNestedArrays | kDoNotRecurseNestedArrays

datatype ComputedFieldsPolicy = kAllowComputedFields | kBanComputedFields

datatype DefaultIdPolicy = kIncludeId | kExcludeId

record ProjectionPolicies =
  idPolicy :: DefaultIdPolicy
  arrayRecursionPolicy :: ArrayRecursionPolicy
  computedFieldsPolicy :: ComputedFieldsPolicy

text \<open>
  The two derived classes of \<open>ProjectionNode\<close>. The class of a node is kept as a
  field of the node.
\<close>

datatype Mode = Inclusion | Exclusion

text \<open>
  One node of the tree. \<open>_projectedFields\<close> is a set of names: the model keeps the
  names in a list without a fixed order (no statement below depends on which order
  it is). \<open>_expressions\<close> and \<open>_children\<close> are maps, kept as association lists;
  \<open>_orderToProcessAdditionsAndChildren\<close> is the vector of the source. The type
  \<open>'e\<close> is the expression handle.
\<close>

datatype 'e ProjectionNode =
  ProjectionNode
    (nodeMode: Mode)
    (policies: ProjectionPolicies)
    (pathToNode: string)
    (projectedFields: "string list")
    (expressions: "(string \<times> 'e) list")
    (children: "(string \<times> 'e ProjectionNode) list")
    (orderToProcessAdditionsAndChildren: "string list")

text \<open>A failed \<open>invariant(...)\<close> aborts the process.\<close>

datatype abort = InvariantFailure

subsection \<open>The four hooks of the mode\<close>

text \<open>
  Modelled from the spec: the hooks \<open>initializeOutputDocument\<close>,
  \<open>applyLeafProjectionToValue\<close>, \<open>transformSkippedValueForOutput\<close> and
  \<open>makeChild\<close> are pure virtual in the node class; their two implementations
  (inclusion and exclusion node) follow the table of the mode strategy: the seed is
  the empty document or a full copy of the input; the leaf projection keeps the
  value or returns missing; the skipped-value transform returns missing or keeps
  the value; the child factory makes a child of the same mode.
\<close>

definition initializeOutputDocument :: "Mode \<Rightarrow> Document \<Rightarrow> Document" where
  "initializeOutputDocument m inputDoc =
     (case m of Inclusion \<Rightarrow> emptyDocument | Exclusion \<Rightarrow> inputDoc)"

definition applyLeafProjectionToValue :: "Mode \<Rightarrow> Value \<Rightarrow> Value" where
  "applyLeafProjectionToValue m v = (case m of Inclusion \<Rightarrow> v | Exclusion \<Rightarrow> Missing)"

definition transformSkippedValueForOutput :: "Mode \<Rightarrow> Value \<Rightarrow> Value" where
  "transformSkippedValueForOutput m v = (case m of Inclusion \<Rightarrow> Missing | Exclusion \<Rightarrow> v)"

text \<open>
  Modelled from the spec: \<open>FieldPath::getFullyQualifiedPath\<close> joins the path to
  the node and a field name with the path separator (the root's path is empty).
\<close>

definition getFullyQualifiedPath :: "string \<Rightarrow> string \<Rightarrow> string" where
  "getFullyQualifiedPath pathPrefix pathSuffix =
     (if pathPrefix = [] then pathSuffix else pathPrefix @ ''.'' @ pathSuffix)"

definition makeChild :: "'e ProjectionNode \<Rightarrow> string \<Rightarrow> 'e ProjectionNode" where
  "makeChild n fieldName =
     ProjectionNode (nodeMode n) (policies n)
       (getFullyQualifiedPath (pathToNode n) fieldName) [] [] [] []"

text \<open>The constructor \<open>ProjectionNode(policies, pathToNode)\<close>, for either class.\<close>

definition newNode :: "Mode \<Rightarrow> ProjectionPolicies \<Rightarrow> string \<Rightarrow> 'e ProjectionNode" where
  "newNode m pol path = ProjectionNode m pol path [] [] [] []"

subsection \<open>Field paths\<close>

text \<open>
  Modelled from the spec: a \<open>FieldPath\<close> is a non-empty sequence of name
  components: the first component and the components of its tail.
\<close>

type_synonym FieldPath = "string \<times> string list"

definition getPathLength :: "FieldPath \<Rightarrow> nat" where
  "getPathLength p = Suc (length (snd p))"

definition fullPath :: "FieldPath \<Rightarrow> string" where
  "fullPath p = foldl getFullyQualifiedPath (fst p) (snd p)"

subsection \<open>Building the tree\<close>

definition getChild :: "'e ProjectionNode \<Rightarrow> string \<Rightarrow> 'e ProjectionNode option" where
  "getChild n field = map_of (children n) field"

text \<open>
  \<open>addChild\<close> returns a pointer to the child; the caller then changes the child in
  place. The model returns the node after the insertion together with the child,
  and \<open>putChild\<close> stores the changed child back under its name. \<open>emplace\<close> keeps
  an entry that is already there.
\<close>

definition addChild ::
  "'e ProjectionNode \<Rightarrow> string \<Rightarrow> abort + ('e ProjectionNode \<times> 'e ProjectionNode)" where
  "addChild n field =
     (if CHR ''.'' \<in> set field then Inl InvariantFailure
      else
        (case n of ProjectionNode m pol path pf ex ch ord \<Rightarrow>
          (case map_of ch field of
             Some c \<Rightarrow> Inr (ProjectionNode m pol path pf ex ch (ord @ [field]), c)
           | None \<Rightarrow>
               Inr (ProjectionNode m pol path pf ex (ch @ [(field, makeChild n field)])
                      (ord @ [field]),
                    makeChild n field))))"

definition addOrGetChild ::
  "'e ProjectionNode \<Rightarrow> string \<Rightarrow> abort + ('e ProjectionNode \<times> 'e ProjectionNode)" where
  "addOrGetChild n field =
     (case getChild n field of Some c \<Rightarrow> Inr (n, c) | None \<Rightarrow> addChild n field)"

definition putChild :: "'e ProjectionNode \<Rightarrow> string \<Rightarrow> 'e ProjectionNode \<Rightarrow> 'e ProjectionNode" where
  "putChild n field c =
     (case n of ProjectionNode m pol path pf ex ch ord \<Rightarrow>
        ProjectionNode m pol path pf ex (AList.update field c ch) ord)"

definition insertName :: "string \<Rightarrow> string list \<Rightarrow> string list" where
  "insertName x xs = (if x \<in> set xs then xs else xs @ [x])"

fun addProjectionForPath :: "'e ProjectionNode \<Rightarrow> FieldPath \<Rightarrow> abort + 'e ProjectionNode" where
  "addProjectionForPath n (f, []) =
     (case n of ProjectionNode m pol path pf ex ch ord \<Rightarrow>
        Inr (ProjectionNode m pol path (insertName f pf) ex ch ord))"
| "addProjectionForPath n (f, g # gs) =
     (case addOrGetChild n f of
        Inl a \<Rightarrow> Inl a
      | Inr (n', c) \<Rightarrow>
          (case addProjectionForPath c (g, gs) of
             Inl a \<Rightarrow> Inl a
           | Inr c' \<Rightarrow> Inr (putChild n' f c')))"

fun addExpressionForPath ::
  "'e ProjectionNode \<Rightarrow> FieldPath \<Rightarrow> 'e \<Rightarrow> abort + 'e ProjectionNode" where
  "addExpressionForPath n (f, []) expr =
     (if computedFieldsPolicy (policies n) \<noteq> kAllowComputedFields then Inl InvariantFailure
      else
        (case n of ProjectionNode m pol path pf ex ch ord \<Rightarrow>
           Inr (ProjectionNode m pol path pf (AList.update f expr ex) ch (ord @ [f]))))"
| "addExpressionForPath n (f, g # gs) expr =
     (if computedFieldsPolicy (policies n) \<noteq> kAllowComputedFields then Inl InvariantFailure
      else
        (case addOrGetChild n f of
           Inl a \<Rightarrow> Inl a
         | Inr (n', c) \<Rightarrow>
             (case addExpressionForPath c (g, gs) expr of
                Inl a \<Rightarrow> Inl a
              | Inr c' \<Rightarrow> Inr (putChild n' f c'))))"

fun getExpressionForPath :: "'e ProjectionNode \<Rightarrow> FieldPath \<Rightarrow> 'e option" where
  "getExpressionForPath n (f, []) = map_of (expressions n) f"
| "getExpressionForPath n (f, g # gs) =
     (case getChild n f of
        Some c \<Rightarrow> getExpressionForPath c (g, gs)
      | None \<Rightarrow> None)"

section \<open>Applying a projection tree\<close>

subsection \<open>The structural projection pass\<close>

definition outputProjectedField :: "string \<Rightarrow> Value \<Rightarrow> slots \<Rightarrow> slots" where
  "outputProjectedField field v doc = setField field v doc"

text \<open>
  The second loop of \<open>applyProjections\<close>: every projected name whose value in the
  input is missing is written as missing.
\<close>

fun outputMissingFields :: "string list \<Rightarrow> slots \<Rightarrow> slots \<Rightarrow> slots" where
  "outputMissingFields [] inputDoc out = out"
| "outputMissingFields (fieldName # rest) inputDoc out =
     outputMissingFields rest inputDoc
       (if missing (getField inputDoc fieldName)
        then outputProjectedField fieldName Missing out else out)"

lemma size_fieldIterator [termination_simp]:
  "size_list f (fieldIterator fs) \<le> size_list f fs"
  by (induction fs) (auto simp: fieldIterator_def)

definition slotsSize :: "slots \<Rightarrow> nat" where
  "slotsSize fs = size_list (size_prod (\<lambda>x. 0) size) fs"

lemma slotsSize_fieldIterator: "2 * slotsSize (fieldIterator fs) < Suc (2 * slotsSize fs)"
  using size_fieldIterator [of "size_prod (\<lambda>x. 0) size" fs] by (simp add: slotsSize_def)

text \<open>
  \<open>applyProjectionsFields\<close> is the \<open>while (it.more())\<close> loop of
  \<open>applyProjections\<close> over the fields that are left; \<open>applyProjectionsToArray\<close>
  is the loop of \<open>applyProjectionsToValue\<close> over the elements of an array.
\<close>

function applyProjectionsFields :: "'e ProjectionNode \<Rightarrow> slots \<Rightarrow> slots \<Rightarrow> slots"
  and applyProjections :: "'e ProjectionNode \<Rightarrow> slots \<Rightarrow> slots \<Rightarrow> slots"
  and applyProjectionsToValue :: "'e ProjectionNode \<Rightarrow> Value \<Rightarrow> Value"
  and applyProjectionsToArray :: "'e ProjectionNode \<Rightarrow> Value list \<Rightarrow> Value list"
where
  "applyProjectionsFields n [] out = out"
| "applyProjectionsFields n ((fieldName, v) # rest) out =
     (if fieldName \<in> set (projectedFields n)
      then applyProjectionsFields n rest
             (outputProjectedField fieldName (applyLeafProjectionToValue (nodeMode n) v) out)
      else
        (case map_of (children n) fieldName of
           Some c \<Rightarrow>
             applyProjectionsFields n rest
               (outputProjectedField fieldName (applyProjectionsToValue c v) out)
         | None \<Rightarrow> applyProjectionsFields n rest out))"
| "applyProjections n inputDoc out =
     (let out' = applyProjectionsFields n (fieldIterator inputDoc) out
      in if missing (applyLeafProjectionToValue (nodeMode n) (Scalar (SBool True)))
         then outputMissingFields (projectedFields n) inputDoc out'
         else out')"
| "applyProjectionsToValue n (Object fs md) =
     (let outputSubDoc = initializeOutputDocument (nodeMode n) \<lparr>docFields = fs, docMeta = md\<rparr>
      in Object (applyProjections n fs (docFields outputSubDoc)) (docMeta outputSubDoc))"
| "applyProjectionsToValue n (Array vs) = Array (applyProjectionsToArray n vs)"
| "applyProjectionsToValue n Missing = transformSkippedValueForOutput (nodeMode n) Missing"
| "applyProjectionsToValue n (Scalar s) = transformSkippedValueForOutput (nodeMode n) (Scalar s)"
| "applyProjectionsToArray n [] = []"
| "applyProjectionsToArray n (v # vs) =
     (let shouldSkip = (isArray v \<and>
            arrayRecursionPolicy (policies n) = kDoNotRecurseNestedArrays)
      in (if shouldSkip then transformSkippedValueForOutput (nodeMode n) v
          else applyProjectionsToValue n v) # applyProjectionsToArray n vs)"
  by pat_completeness auto

termination
  by (relation "measure (\<lambda>x. case x of
          Inl (Inl (n, fs, out)) \<Rightarrow> 2 * slotsSize fs
        | Inl (Inr (n, fs, out)) \<Rightarrow> 2 * slotsSize fs + 1
        | Inr (Inl (n, v)) \<Rightarrow> 2 * size v
        | Inr (Inr (n, vs)) \<Rightarrow> 2 * size_list size vs + 1)")
     (simp_all add: slotsSize_fieldIterator, simp_all add: slotsSize_def)

subsection \<open>The expression overlay pass\<close>

lemma size_child [termination_simp]:
  "(k, c) \<in> set (children n) \<Longrightarrow> size c < size n"
proof (cases n)
  case (ProjectionNode m pol path pf ex ch ord)
  have "(k, c) \<in> set ch \<Longrightarrow> size c < Suc (size_list (size_prod (\<lambda>x. 0) size) ch)"
    by (induction ch) auto
  with ProjectionNode show "(k, c) \<in> set (children n) \<Longrightarrow> size c < size n"
    by simp
qed

lemma size_map_of_child: "map_of (children n) k = Some c \<Longrightarrow> size c < size n"
  by (rule size_child [OF map_of_SomeD])

fun subtreeContainsComputedFields :: "'e ProjectionNode \<Rightarrow> bool" where
  "subtreeContainsComputedFields (ProjectionNode m pol path pf ex ch ord) =
     (ex \<noteq> [] \<or> list_ex (\<lambda>childPair. subtreeContainsComputedFields (snd childPair)) ch)"

text \<open>
  \<open>applyExpressionsOrder\<close> is the loop of \<open>applyExpressions\<close> over the names of
  \<open>_orderToProcessAdditionsAndChildren\<close> that are left; \<open>applyExpressionsToArray\<close>
  is the loop of \<open>applyExpressionsToValue\<close> over the elements of an array. The
  first argument is \<open>Expression::evaluate\<close> (with the variables of the expression's
  context), which is not part of this code.
\<close>

function applyExpressionsOrder ::
    "('e \<Rightarrow> Document \<Rightarrow> Value) \<Rightarrow> 'e ProjectionNode \<Rightarrow> Document \<Rightarrow> string list \<Rightarrow> slots
       \<Rightarrow> abort + slots"
  and applyExpressions ::
    "('e \<Rightarrow> Document \<Rightarrow> Value) \<Rightarrow> 'e ProjectionNode \<Rightarrow> Document \<Rightarrow> slots \<Rightarrow> abort + slots"
  and applyExpressionsToValue ::
    "('e \<Rightarrow> Document \<Rightarrow> Value) \<Rightarrow> 'e ProjectionNode \<Rightarrow> Document \<Rightarrow> Value \<Rightarrow> abort + Value"
  and applyExpressionsToArray ::
    "('e \<Rightarrow> Document \<Rightarrow> Value) \<Rightarrow> 'e ProjectionNode \<Rightarrow> Document \<Rightarrow> Value list
       \<Rightarrow> abort + Value list"
where
  "applyExpressionsOrder ev n root [] out = Inr out"
| "applyExpressionsOrder ev n root (field # rest) out =
     (case map_of (children n) field of
        Some c \<Rightarrow>
          (case applyExpressionsToValue ev c root (getField out field) of
             Inl a \<Rightarrow> Inl a
           | Inr v \<Rightarrow> applyExpressionsOrder ev n root rest (setField field v out))
      | None \<Rightarrow>
          (case map_of (expressions n) field of
             None \<Rightarrow> Inl InvariantFailure
           | Some e \<Rightarrow> applyExpressionsOrder ev n root rest (setField field (ev e root) out)))"
| "applyExpressions ev n root out =
     applyExpressionsOrder ev n root (orderToProcessAdditionsAndChildren n) out"
| "applyExpressionsToValue ev n root (Object fs md) =
     (case applyExpressions ev n root fs of
        Inl a \<Rightarrow> Inl a
      | Inr fs' \<Rightarrow> Inr (Object fs' md))"
| "applyExpressionsToValue ev n root (Array vs) =
     (case applyExpressionsToArray ev n root vs of
        Inl a \<Rightarrow> Inl a
      | Inr vs' \<Rightarrow> Inr (Array vs'))"
| "applyExpressionsToValue ev n root Missing =
     (if subtreeContainsComputedFields n
      then (case applyExpressions ev n root [] of
              Inl a \<Rightarrow> Inl a
            | Inr fs' \<Rightarrow> Inr (Object fs' []))
      else Inr (transformSkippedValueForOutput (nodeMode n) Missing))"
| "applyExpressionsToValue ev n root (Scalar s) =
     (if subtreeContainsComputedFields n
      then (case applyExpressions ev n root [] of
              Inl a \<Rightarrow> Inl a
            | Inr fs' \<Rightarrow> Inr (Object fs' []))
      else Inr (transformSkippedValueForOutput (nodeMode n) (Scalar s)))"
| "applyExpressionsToArray ev n root [] = Inr []"
| "applyExpressionsToArray ev n root (v # vs) =
     (case applyExpressionsToValue ev n root v of
        Inl a \<Rightarrow> Inl a
      | Inr v' \<Rightarrow>
          (case applyExpressionsToArray ev n root vs of
             Inl a \<Rightarrow> Inl a
           | Inr vs' \<Rightarrow> Inr (v' # vs')))"
  by pat_completeness auto

termination
  by (relation "measures
        [\<lambda>x. case x of
           Inl (Inl (ev, n, root, ord, out)) \<Rightarrow> size n
         | Inl (Inr (ev, n, root, out)) \<Rightarrow> size n
         | Inr (Inl (ev, n, root, v)) \<Rightarrow> size n
         | Inr (Inr (ev, n, root, vs)) \<Rightarrow> size n,
         \<lambda>x. case x of
           Inl (Inl (ev, n, root, ord, out)) \<Rightarrow> 0
         | Inl (Inr (ev, n, root, out)) \<Rightarrow> 1
         | Inr (Inl (ev, n, root, v)) \<Rightarrow> 2
         | Inr (Inr (ev, n, root, vs)) \<Rightarrow> 2,
         \<lambda>x. case x of
           Inl (Inl (ev, n, root, ord, out)) \<Rightarrow> length ord
         | Inl (Inr (ev, n, root, out)) \<Rightarrow> 0
         | Inr (Inl (ev, n, root, v)) \<Rightarrow> 2 * size v
         | Inr (Inr (ev, n, root, vs)) \<Rightarrow> 2 * size_list size vs + 1]")
     (simp_all add: size_map_of_child)

subsection \<open>Apply to a document\<close>

definition applyToDocument ::
  "('e \<Rightarrow> Document \<Rightarrow> Value) \<Rightarrow> 'e ProjectionNode \<Rightarrow> Document \<Rightarrow> abort + Document" where
  "applyToDocument ev n inputDoc =
     (let outputDoc = initializeOutputDocument (nodeMode n) inputDoc;
          projected = applyProjections n (docFields inputDoc) (docFields outputDoc)
      in (case applyExpressions ev n inputDoc projected of
            Inl a \<Rightarrow> Inl a
          | Inr overlaid \<Rightarrow>
              Inr (copyMetaDataFrom inputDoc (outputDoc\<lparr>docFields := overlaid\<rparr>))))"

section \<open>Optimize and serialize\<close>

text \<open>The first argument is \<open>Expression::optimize\<close>, which is not part of this code.\<close>

fun optimize :: "('e \<Rightarrow> 'e) \<Rightarrow> 'e ProjectionNode \<Rightarrow> 'e ProjectionNode" where
  "optimize opt (ProjectionNode m pol path pf ex ch ord) =
     ProjectionNode m pol path pf
       (map (\<lambda>expressionIt. (fst expressionIt, opt (snd expressionIt))) ex)
       (map (\<lambda>childPair. (fst childPair, optimize opt (snd childPair))) ch)
       ord"

datatype Verbosity = kQueryPlanner | kExecStats | kExecAllPlans

text \<open>The loop of \<open>serialize\<close> over the projected fields other than \<open>_id\<close>.\<close>

fun serializeProjectedFields :: "string list \<Rightarrow> bool \<Rightarrow> slots \<Rightarrow> slots" where
  "serializeProjectedFields [] projVal output = output"
| "serializeProjectedFields (projectedField # rest) projVal output =
     serializeProjectedFields rest projVal
       (if projectedField \<noteq> ''_id''
        then addField projectedField (Scalar (SBool projVal)) output else output)"

text \<open>
  \<open>serializeOrder\<close> is the loop of \<open>serialize\<close> over the names of
  \<open>_orderToProcessAdditionsAndChildren\<close> that are left. The first argument is
  \<open>Expression::serialize\<close>, which is not part of this code.
\<close>

function serializeOrder ::
    "('e \<Rightarrow> bool \<Rightarrow> Value) \<Rightarrow> 'e ProjectionNode \<Rightarrow> Verbosity option \<Rightarrow> string list \<Rightarrow> slots
       \<Rightarrow> abort + slots"
  and serializeInto ::
    "('e \<Rightarrow> bool \<Rightarrow> Value) \<Rightarrow> 'e ProjectionNode \<Rightarrow> Verbosity option \<Rightarrow> slots \<Rightarrow> abort + slots"
where
  "serializeOrder ser n explain [] output = Inr output"
| "serializeOrder ser n explain (field # rest) output =
     (case map_of (children n) field of
        Some c \<Rightarrow>
          (case serializeInto ser c explain [] of
             Inl a \<Rightarrow> Inl a
           | Inr subDoc \<Rightarrow>
               serializeOrder ser n explain rest (addField field (Object subDoc []) output))
      | None \<Rightarrow>
          (if computedFieldsPolicy (policies n) \<noteq> kAllowComputedFields then Inl InvariantFailure
           else
             (case map_of (expressions n) field of
                None \<Rightarrow> Inl InvariantFailure
              | Some e \<Rightarrow>
                  serializeOrder ser n explain rest
                    (addField field (ser e (explain \<noteq> None)) output))))"
| "serializeInto ser n explain output =
     (let projVal = \<not> missing (applyLeafProjectionToValue (nodeMode n) (Scalar (SBool True)));
          output1 = (if ''_id'' \<in> set (projectedFields n)
                     then addField ''_id'' (Scalar (SBool projVal)) output else output);
          output2 = serializeProjectedFields (projectedFields n) projVal output1
      in serializeOrder ser n explain (orderToProcessAdditionsAndChildren n) output2)"
  by pat_completeness auto

termination
  by (relation "measures
        [\<lambda>x. case x of
           Inl (ser, n, explain, ord, out) \<Rightarrow> size n
         | Inr (ser, n, explain, out) \<Rightarrow> size n,
         \<lambda>x. case x of
           Inl (ser, n, explain, ord, out) \<Rightarrow> length ord
         | Inr (ser, n, explain, out) \<Rightarrow> Suc (length (orderToProcessAdditionsAndChildren n))]")
     (simp_all add: size_map_of_child)

definition serialize ::
  "('e \<Rightarrow> bool \<Rightarrow> Value) \<Rightarrow> 'e ProjectionNode \<Rightarrow> Verbosity option \<Rightarrow> abort + Document" where
  "serialize ser n explain =
     (case serializeInto ser n explain [] of
        Inl a \<Rightarrow> Inl a
      | Inr outputDoc \<Rightarrow> Inr \<lparr>docFields = outputDoc, docMeta = []\<rparr>)"

section \<open>Conditions on trees\<close>

text \<open>
  Every name of \<open>_orderToProcessAdditionsAndChildren\<close> is the name of a child or
  of an expression, at this node and at every node below: the lookups that the
  overlay pass and \<open>serialize\<close> guard with \<open>invariant\<close> then succeed.
\<close>

fun declaredNamesResolve :: "'e ProjectionNode \<Rightarrow> bool" where
  "declaredNamesResolve (ProjectionNode m pol path pf ex ch ord) =
     (list_all (\<lambda>field. map_of ch field \<noteq> None \<or> map_of ex field \<noteq> None) ord \<and>
      list_all (\<lambda>childPair. declaredNamesResolve (snd childPair)) ch)"

text \<open>The policy of this node and of every node below allows computed fields.\<close>

fun subtreeAllowsComputedFields :: "'e ProjectionNode \<Rightarrow> bool" where
  "subtreeAllowsComputedFields (ProjectionNode m pol path pf ex ch ord) =
     (computedFieldsPolicy pol = kAllowComputedFields \<and>
      list_all (\<lambda>childPair. subtreeAllowsComputedFields (snd childPair)) ch)"

text \<open>
  The shape of a tree: the tree with its expression handles erased. It keeps the
  modes, the policies, the paths, the projected fields, the names that have an
  expression, the children and the declared order.
\<close>

fun treeShape :: "'e ProjectionNode \<Rightarrow> unit ProjectionNode" where
  "treeShape (ProjectionNode m pol path pf ex ch ord) =
     ProjectionNode m pol path pf
       (map (\<lambda>expressionPair. (fst expressionPair, ())) ex)
       (map (\<lambda>childPair. (fst childPair, treeShape (snd childPair))) ch)
       ord"


text \<open>
  The value a document holds at a path (through nested documents only); whether
  no array stands on the way of a path in a document; and whether a path is
  declared in the tree: each of its names stands in the declared order of its
  node, once where it leads to a child, and the last name has no child.
\<close>

fun valueAtPath :: "slots \<Rightarrow> FieldPath \<Rightarrow> Value" where
  "valueAtPath fs (f, []) = getField fs f"
| "valueAtPath fs (f, g # gs) =
     (case getField fs f of
        Object sub md \<Rightarrow> valueAtPath sub (g, gs)
      | _ \<Rightarrow> Missing)"

fun noArrayAlong :: "slots \<Rightarrow> FieldPath \<Rightarrow> bool" where
  "noArrayAlong fs (f, []) = True"
| "noArrayAlong fs (f, g # gs) =
     (case getField fs f of
        Object sub md \<Rightarrow> noArrayAlong sub (g, gs)
      | Array vs \<Rightarrow> False
      | _ \<Rightarrow> True)"

fun declaredAlong :: "'e ProjectionNode \<Rightarrow> FieldPath \<Rightarrow> bool" where
  "declaredAlong n (f, []) =
     (f \<in> set (orderToProcessAdditionsAndChildren n) \<and> getChild n f = None)"
| "declaredAlong n (f, g # gs) =
     (f \<in> set (orderToProcessAdditionsAndChildren n) \<and>
      distinct (orderToProcessAdditionsAndChildren n) \<and>
      (case getChild n f of
         Some c \<Rightarrow> declaredAlong c (g, gs)
       | None \<Rightarrow> False))"

section \<open>Sequences of additions\<close>

text \<open>
  A call that adds to the tree, and a sequence of such calls on one tree; the
  sequence stops at the first call that aborts.
\<close>

datatype 'e addition = AddProjection FieldPath | AddExpression FieldPath 'e

fun additionPath :: "'e addition \<Rightarrow> FieldPath" where
  "additionPath (AddProjection p) = p"
| "additionPath (AddExpression p e) = p"

fun applyAddition :: "'e ProjectionNode \<Rightarrow> 'e addition \<Rightarrow> abort + 'e ProjectionNode" where
  "applyAddition n (AddProjection p) = addProjectionForPath n p"
| "applyAddition n (AddExpression p e) = addExpressionForPath n p e"

fun applyAdditions :: "'e ProjectionNode \<Rightarrow> 'e addition list \<Rightarrow> abort + 'e ProjectionNode" where
  "applyAdditions n [] = Inr n"
| "applyAdditions n (a # rest) =
     (case applyAddition n a of
        Inl x \<Rightarrow> Inl x
      | Inr n' \<Rightarrow> applyAdditions n' rest)"

text \<open>
  Two paths overlap when they are equal or one is a prefix of the other. Two calls
  conflict when their paths overlap, except that two calls of
  \<open>addProjectionForPath\<close> with the same path do not; a sequence of calls is free
  of conflicts when no two of its calls conflict.
\<close>

definition pathComponents :: "FieldPath \<Rightarrow> string list" where
  "pathComponents p = fst p # snd p"

definition conflicting :: "string list \<Rightarrow> string list \<Rightarrow> bool" where
  "conflicting p q = (prefix p q \<or> prefix q p)"

fun isProjection :: "'e addition \<Rightarrow> bool" where
  "isProjection (AddProjection p) = True"
| "isProjection (AddExpression p e) = False"

definition additionsConflict :: "'e addition \<Rightarrow> 'e addition \<Rightarrow> bool" where
  "additionsConflict a b =
     (if pathComponents (additionPath a) = pathComponents (additionPath b)
      then \<not> (isProjection a \<and> isProjection b)
      else conflicting (pathComponents (additionPath a)) (pathComponents (additionPath b)))"

fun additionsConflictFree :: "'e addition list \<Rightarrow> bool" where
  "additionsConflictFree [] = True"
| "additionsConflictFree (a # rest) =
     (list_all (\<lambda>b. \<not> additionsConflict a b) rest \<and> additionsConflictFree rest)"

text \<open>
  The invariant as the data model words it, at a node and at every node below: a
  name is in at most one of the projected fields, the expressions and the
  children, and the declared order holds exactly the names of the expressions and
  of the children, each once.
\<close>

fun claimedInvariant :: "'e ProjectionNode \<Rightarrow> bool" where
  "claimedInvariant (ProjectionNode m pol path pf ex ch ord) =
     (set pf \<inter> fst ` set ex = {} \<and> set pf \<inter> fst ` set ch = {} \<and>
      fst ` set ex \<inter> fst ` set ch = {} \<and>
      set ord = fst ` set ex \<union> fst ` set ch \<and> distinct ord \<and>
      list_all (\<lambda>childPair. claimedInvariant (snd childPair)) ch)"

text \<open>
  The part of it that every sequence of calls keeps: the names of the declared
  order are the names of the expressions and of the children, and the set and the
  two maps hold a name once.
\<close>

fun declaredOrderCovers :: "'e ProjectionNode \<Rightarrow> bool" where
  "declaredOrderCovers (ProjectionNode m pol path pf ex ch ord) =
     (set ord = fst ` set ex \<union> fst ` set ch \<and>
      distinct pf \<and> distinct (map fst ex) \<and> distinct (map fst ch) \<and>
      list_all (\<lambda>childPair. declaredOrderCovers (snd childPair)) ch)"

text \<open>
  The paths of the projected fields and of the expressions of a tree, relative to
  its root, and those of the projected fields alone; and the invariant above
  together with the facts that the set and the maps hold a name once and that
  every child has a leaf below it.
\<close>

fun leafPaths :: "'e ProjectionNode \<Rightarrow> string list list" where
  "leafPaths (ProjectionNode m pol path pf ex ch ord) =
     map (\<lambda>f. [f]) pf @ map (\<lambda>expressionPair. [fst expressionPair]) ex @
     concat (map (\<lambda>childPair. map ((#) (fst childPair)) (leafPaths (snd childPair))) ch)"

fun plainPaths :: "'e ProjectionNode \<Rightarrow> string list list" where
  "plainPaths (ProjectionNode m pol path pf ex ch ord) =
     map (\<lambda>f. [f]) pf @
     concat (map (\<lambda>childPair. map ((#) (fst childPair)) (plainPaths (snd childPair))) ch)"

fun separatedInvariant :: "'e ProjectionNode \<Rightarrow> bool" where
  "separatedInvariant (ProjectionNode m pol path pf ex ch ord) =
     (set pf \<inter> fst ` set ex = {} \<and> set pf \<inter> fst ` set ch = {} \<and>
      fst ` set ex \<inter> fst ` set ch = {} \<and>
      set ord = fst ` set ex \<union> fst ` set ch \<and> distinct ord \<and>
      distinct pf \<and> distinct (map fst ex) \<and> distinct (map fst ch) \<and>
      list_all (\<lambda>childPair. separatedInvariant (snd childPair) \<and> leafPaths (snd childPair) \<noteq> []) ch)"

text \<open>
  Every child of the tree, at any depth, has a projected field or an expression
  below it.
\<close>

fun populated :: "'e ProjectionNode \<Rightarrow> bool" where
  "populated (ProjectionNode m pol path pf ex ch ord) =
     list_all (\<lambda>childPair. populated (snd childPair) \<and> leafPaths (snd childPair) \<noteq> []) ch"

section \<open>Sample inputs\<close>

text \<open>
  Sample inputs for the concrete instances below: two policies, and an expression
  type whose handles are integer literals.
\<close>

definition samplePolicies :: ProjectionPolicies where
  "samplePolicies =
     \<lparr>idPolicy = kIncludeId, arrayRecursionPolicy = kRecurseNestedArrays,
      computedFieldsPolicy = kAllowComputedFields\<rparr>"

definition noNestedArrayPolicies :: ProjectionPolicies where
  "noNestedArrayPolicies =
     \<lparr>idPolicy = kIncludeId, arrayRecursionPolicy = kDoNotRecurseNestedArrays,
      computedFieldsPolicy = kAllowComputedFields\<rparr>"

definition literalEvaluate :: "int \<Rightarrow> Document \<Rightarrow> Value" where
  "literalEvaluate e root = Scalar (SInt e)"


text \<open>A second expression type: the handle names a field of the root document.\<close>

definition fieldRefEvaluate :: "string \<Rightarrow> Document \<Rightarrow> Value" where
  "fieldRefEvaluate name root = getField (docFields root) name"

text \<open>
  A third expression type: literals, references to a field of the root document
  and sums, with their evaluation and their serialization, and two functions in
  the place of \<open>Expression::optimize\<close>. Both fold constant sums and keep what
  an expression evaluates to; \<open>foldOneLevel\<close> stops below a sum it has changed,
  so a second run can fold further, while \<open>foldConstants\<close> folds the whole
  expression.
\<close>

datatype sampleExpression =
    Literal int
  | FieldRef string
  | Add sampleExpression sampleExpression

fun addValues :: "Value \<Rightarrow> Value \<Rightarrow> Value" where
  "addValues (Scalar (SInt x)) (Scalar (SInt y)) = Scalar (SInt (x + y))"
| "addValues v w = Scalar SNull"

fun sampleEvaluate :: "sampleExpression \<Rightarrow> Document \<Rightarrow> Value" where
  "sampleEvaluate (Literal i) root = Scalar (SInt i)"
| "sampleEvaluate (FieldRef name) root = getField (docFields root) name"
| "sampleEvaluate (Add a b) root = addValues (sampleEvaluate a root) (sampleEvaluate b root)"

fun sampleSerialize :: "sampleExpression \<Rightarrow> bool \<Rightarrow> Value" where
  "sampleSerialize (Literal i) explain = Object [(''$const'', Scalar (SInt i))] []"
| "sampleSerialize (FieldRef name) explain = Scalar (SString (CHR ''$'' # name))"
| "sampleSerialize (Add a b) explain =
     Object [(''$add'', Array [sampleSerialize a explain, sampleSerialize b explain])] []"

fun foldOneLevel :: "sampleExpression \<Rightarrow> sampleExpression" where
  "foldOneLevel (Add (Literal a) (Literal b)) = Literal (a + b)"
| "foldOneLevel (Add x y) = Add (foldOneLevel x) (foldOneLevel y)"
| "foldOneLevel e = e"

fun addFolded :: "sampleExpression \<Rightarrow> sampleExpression \<Rightarrow> sampleExpression" where
  "addFolded (Literal a) (Literal b) = Literal (a + b)"
| "addFolded x y = Add x y"

fun foldConstants :: "sampleExpression \<Rightarrow> sampleExpression" where
  "foldConstants (Add x y) = addFolded (foldConstants x) (foldConstants y)"
| "foldConstants e = e"

section \<open>The overlay pass returns on resolved trees\<close>

lemma declaredNamesResolve_child:
  "declaredNamesResolve n \<Longrightarrow> map_of (children n) k = Some c \<Longrightarrow> declaredNamesResolve c"
  by (cases n) (auto simp: list_all_iff dest!: map_of_SomeD)

lemma declaredNamesResolve_order:
  "declaredNamesResolve n \<Longrightarrow> field \<in> set (orderToProcessAdditionsAndChildren n) \<Longrightarrow>
   map_of (children n) field = None \<Longrightarrow> \<exists>e. map_of (expressions n) field = Some e"
  by (cases n) (auto simp: list_all_iff)

lemma applyExpressions_total_aux:
  "(declaredNamesResolve n \<longrightarrow> set ord \<subseteq> set (orderToProcessAdditionsAndChildren n) \<longrightarrow>
      (\<exists>r. applyExpressionsOrder ev n root ord out = Inr r))"
  "(declaredNamesResolve n \<longrightarrow> (\<exists>r. applyExpressions ev n root out = Inr r))"
  "(declaredNamesResolve n \<longrightarrow> (\<exists>r. applyExpressionsToValue ev n root v = Inr r))"
  "(declaredNamesResolve n \<longrightarrow> (\<exists>r. applyExpressionsToArray ev n root vs = Inr r))"
proof (induction ev n root ord out and ev n root out and ev n root v and ev n root vs
       rule: applyExpressionsOrder_applyExpressions_applyExpressionsToValue_applyExpressionsToArray.induct)
  case (1 ev n root out)
  then show ?case by simp
next
  case (2 ev n root field rest out)
  show ?case
  proof (intro impI)
    assume wf: "declaredNamesResolve n"
      and sub: "set (field # rest) \<subseteq> set (orderToProcessAdditionsAndChildren n)"
    show "\<exists>r. applyExpressionsOrder ev n root (field # rest) out = Inr r"
    proof (cases "map_of (children n) field")
      case None
      with declaredNamesResolve_order [OF wf _ None] sub
      obtain e where e: "map_of (expressions n) field = Some e" by auto
      with "2.IH" wf sub None show ?thesis by simp
    next
      case (Some c)
      with declaredNamesResolve_child [OF wf Some] "2.IH"
      obtain v where v: "applyExpressionsToValue ev c root (getField out field) = Inr v" by auto
      with "2.IH" wf sub Some show ?thesis by simp
    qed
  qed
next
  case (3 ev n root out)
  then show ?case by simp
next
  case (4 ev n root fs md)
  then show ?case by (auto split: sum.splits)
next
  case (5 ev n root vs)
  then show ?case by (auto split: sum.splits)
next
  case (6 ev n root)
  then show ?case by (auto split: sum.splits)
next
  case (7 ev n root s)
  then show ?case by (auto split: sum.splits)
next
  case (8 ev n root)
  then show ?case by simp
next
  case (9 ev n root v vs)
  then show ?case by (auto split: sum.splits)
qed

lemma applyExpressions_total:
  "declaredNamesResolve n \<Longrightarrow> \<exists>r. applyExpressions ev n root out = Inr r"
  using applyExpressions_total_aux(2) by blast

section \<open>Metadata\<close>

text \<open>
  C8. Whatever the tree (its mode, its fields, its expressions) and the input
  document, the document that \<open>applyToDocument\<close> returns carries the metadata of
  the input document. The call returns unless an \<open>invariant\<close> of the overlay pass
  fails, which needs a declared name that is neither a child nor an expression.
\<close>

theorem applyToDocument_metadata:
  "(case applyToDocument ev n inputDoc of
      Inl a \<Rightarrow> \<not> declaredNamesResolve n
    | Inr outputDoc \<Rightarrow> docMeta outputDoc = docMeta inputDoc)"
proof (cases "applyToDocument ev n inputDoc")
  case (Inl a)
  then have "\<not> (\<exists>r. applyExpressions ev n inputDoc
      (applyProjections n (docFields inputDoc)
         (docFields (initializeOutputDocument (nodeMode n) inputDoc))) = Inr r)"
    by (auto simp: applyToDocument_def Let_def split: sum.splits)
  with applyExpressions_total have "\<not> declaredNamesResolve n" by blast
  with Inl show ?thesis by simp
next
  case (Inr outputDoc)
  then show ?thesis
    by (auto simp: applyToDocument_def Let_def copyMetaDataFrom_def split: sum.splits)
qed

theorem applyToDocument_metadata_witness:
  "declaredNamesResolve (ProjectionNode Inclusion samplePolicies [] [''name'']
       [(''age'', 30)] [] [''age'']) \<and>
   (case applyToDocument literalEvaluate
           (ProjectionNode Inclusion samplePolicies [] [''name''] [(''age'', 30)] [] [''age''])
           \<lparr>docFields = [(''name'', Scalar (SString ''Ann'')), (''extra'', Scalar SNull)],
            docMeta = [(''textScore'', SInt 3)]\<rparr> of
      Inl a \<Rightarrow> False
    | Inr outputDoc \<Rightarrow> docMeta outputDoc = [(''textScore'', SInt 3)])"
proof -
  let ?n = "ProjectionNode Inclusion samplePolicies [] [''name''] [(''age'', 30)] [] [''age'']"
  let ?d = "\<lparr>docFields = [(''name'', Scalar (SString ''Ann'')), (''extra'', Scalar SNull)],
            docMeta = [(''textScore'', SInt 3)]\<rparr>"
  have wf: "declaredNamesResolve ?n" by simp
  from applyToDocument_metadata [where ev = literalEvaluate and n = ?n and inputDoc = ?d] wf
  show ?thesis
    by (cases "applyToDocument literalEvaluate ?n ?d") simp_all
qed

section \<open>Arrays in the structural projection pass\<close>

lemma applyProjectionsToArray_map:
  "applyProjectionsToArray n vs =
     map (\<lambda>v. if isArray v \<and> arrayRecursionPolicy (policies n) = kDoNotRecurseNestedArrays
              then transformSkippedValueForOutput (nodeMode n) v
              else applyProjectionsToValue n v) vs"
  by (induction vs) (simp_all add: Let_def)

text \<open>
  C4. On an array, the projection of a child node is the array of the projections
  of the elements, except that an element that is itself an array is handed as a
  whole to the skipped-value transform of the mode when the policy is not to
  recurse into nested arrays. In particular, under that policy the tree for the
  path \<open>a.b\<close>, applied to a document whose field \<open>a\<close> is an array holding one inner
  array, hands the inner array as a whole to the skipped-value transform: none of
  its elements is visited.
\<close>

theorem applyProjectionsToValue_array:
  "applyProjectionsToValue n (Array vs) =
     Array (map (\<lambda>v. if isArray v \<and> arrayRecursionPolicy (policies n) = kDoNotRecurseNestedArrays
                     then transformSkippedValueForOutput (nodeMode n) v
                     else applyProjectionsToValue n v) vs)
   \<and> (arrayRecursionPolicy pol = kDoNotRecurseNestedArrays \<longrightarrow>
        (\<exists>t. addProjectionForPath (newNode m pol []) (''a'', [''b'']) = Inr (t :: 'e ProjectionNode) \<and>
          applyProjections t [(''a'', Array [Array inner])]
              (docFields (initializeOutputDocument m
                 \<lparr>docFields = [(''a'', Array [Array inner])], docMeta = md\<rparr>))
            = [(''a'', Array [transformSkippedValueForOutput m (Array inner)])]))"
proof (intro conjI impI)
  show "applyProjectionsToValue n (Array vs) =
     Array (map (\<lambda>v. if isArray v \<and> arrayRecursionPolicy (policies n) = kDoNotRecurseNestedArrays
                     then transformSkippedValueForOutput (nodeMode n) v
                     else applyProjectionsToValue n v) vs)"
    by (simp add: applyProjectionsToArray_map)
next
  assume pol: "arrayRecursionPolicy pol = kDoNotRecurseNestedArrays"
  let ?c = "ProjectionNode m pol ''a'' [''b''] [] [] [] :: 'e ProjectionNode"
  let ?t = "ProjectionNode m pol [] [] [] [(''a'', ?c)] [''a''] :: 'e ProjectionNode"
  have built: "addProjectionForPath (newNode m pol []) (''a'', [''b'']) = Inr ?t"
    by (simp add: newNode_def addOrGetChild_def getChild_def addChild_def makeChild_def
        putChild_def insertName_def getFullyQualifiedPath_def)
  have "applyProjections ?t [(''a'', Array [Array inner])]
              (docFields (initializeOutputDocument m
                 \<lparr>docFields = [(''a'', Array [Array inner])], docMeta = md\<rparr>))
            = [(''a'', Array [transformSkippedValueForOutput m (Array inner)])]"
    using pol
    by (cases m)
       (simp_all add: fieldIterator_def missing_def isArray_def Let_def outputProjectedField_def
          setField_def initializeOutputDocument_def emptyDocument_def
          applyLeafProjectionToValue_def)
  with built show "\<exists>t. addProjectionForPath (newNode m pol []) (''a'', [''b'']) = Inr (t :: 'e ProjectionNode) \<and>
          applyProjections t [(''a'', Array [Array inner])]
              (docFields (initializeOutputDocument m
                 \<lparr>docFields = [(''a'', Array [Array inner])], docMeta = md\<rparr>))
            = [(''a'', Array [transformSkippedValueForOutput m (Array inner)])]"
    by blast
qed

theorem applyProjectionsToValue_array_witness:
  "arrayRecursionPolicy noNestedArrayPolicies = kDoNotRecurseNestedArrays \<and>
   (\<exists>t. addProjectionForPath (newNode Exclusion noNestedArrayPolicies []) (''a'', [''b''])
          = Inr (t :: int ProjectionNode) \<and>
        applyProjections t [(''a'', Array [Array [Object [(''b'', Scalar (SInt 1))] []]])]
            [(''a'', Array [Array [Object [(''b'', Scalar (SInt 1))] []]])]
          = [(''a'', Array [Array [Object [(''b'', Scalar (SInt 1))] []]])])"
proof -
  have pol: "arrayRecursionPolicy noNestedArrayPolicies = kDoNotRecurseNestedArrays"
    by (simp add: noNestedArrayPolicies_def)
  from applyProjectionsToValue_array
         [where pol = noNestedArrayPolicies and m = Exclusion
            and inner = "[Object [(''b'', Scalar (SInt 1))] []]" and md = "[]"
            and 'e = int, THEN conjunct2, rule_format, OF pol]
  show ?thesis
    using pol by (simp add: initializeOutputDocument_def transformSkippedValueForOutput_def)
qed

section \<open>Aborts while the tree is built\<close>

lemma subtreeAllows_policy:
  "subtreeAllowsComputedFields n \<Longrightarrow> computedFieldsPolicy (policies n) = kAllowComputedFields"
  by (cases n) simp

lemma subtreeAllows_child:
  "subtreeAllowsComputedFields n \<Longrightarrow> map_of (children n) k = Some c \<Longrightarrow>
   subtreeAllowsComputedFields c"
  by (cases n) (auto simp: list_all_iff dest!: map_of_SomeD)

lemma subtreeAllows_makeChild:
  "subtreeAllowsComputedFields n \<Longrightarrow> subtreeAllowsComputedFields (makeChild n field)"
  by (cases n) (simp add: makeChild_def)

lemma addOrGetChild_allows:
  assumes "subtreeAllowsComputedFields n" and "CHR ''.'' \<notin> set field"
  shows "\<exists>n' c. addOrGetChild n field = Inr (n', c) \<and> subtreeAllowsComputedFields c"
proof (cases "map_of (children n) field")
  case None
  with assms subtreeAllows_makeChild [OF assms(1), of field] show ?thesis
    by (cases n) (simp add: addOrGetChild_def getChild_def addChild_def)
next
  case (Some c)
  with assms subtreeAllows_child [OF assms(1) Some] show ?thesis
    by (simp add: addOrGetChild_def getChild_def)
qed

lemma addOrGetChild_dot:
  "CHR ''.'' \<notin> set field \<Longrightarrow> \<exists>r. addOrGetChild n field = Inr r"
  by (cases n) (auto simp: addOrGetChild_def getChild_def addChild_def split: option.splits)

lemma addExpressionForPath_returns:
  "subtreeAllowsComputedFields n \<Longrightarrow> \<forall>c \<in> set (f # gs). CHR ''.'' \<notin> set c \<Longrightarrow>
   \<exists>n'. addExpressionForPath n (f, gs) expr = Inr n'"
proof (induction gs arbitrary: n f)
  case Nil
  then show ?case by (cases n) simp
next
  case (Cons g gs)
  from Cons.prems addOrGetChild_allows [of n f]
  obtain n' c where ch: "addOrGetChild n f = Inr (n', c)" and al: "subtreeAllowsComputedFields c"
    by auto
  from Cons.IH [OF al, of g] Cons.prems(2)
  obtain c' where "addExpressionForPath c (g, gs) expr = Inr c'" by auto
  with ch subtreeAllows_policy [OF Cons.prems(1)] show ?case by simp
qed

lemma addProjectionForPath_returns:
  "\<forall>c \<in> set (f # gs). CHR ''.'' \<notin> set c \<Longrightarrow>
   \<exists>n'. addProjectionForPath n (f, gs) = Inr n'"
proof (induction gs arbitrary: n f)
  case Nil
  then show ?case by (cases n) simp
next
  case (Cons g gs)
  from Cons.prems addOrGetChild_dot [of f n]
  obtain n' c where ch: "addOrGetChild n f = Inr (n', c)" by auto
  from Cons.IH [of g c] Cons.prems
  obtain c' where "addProjectionForPath c (g, gs) = Inr c'" by auto
  with ch show ?case by simp
qed

text \<open>
  C9. A violated contract aborts: \<open>addExpressionForPath\<close> fails its \<open>invariant\<close>
  whenever the policy of the node bans computed fields, and \<open>addChild\<close> whenever
  the name contains the path separator. When the name has no separator
  \<open>addChild\<close> returns; when the policy of the node and of the nodes below allows
  computed fields and no component of the path has a separator,
  \<open>addExpressionForPath\<close> returns; and \<open>addProjectionForPath\<close> returns when no
  component of the path has a separator.
\<close>

theorem construction_aborts:
  "(computedFieldsPolicy (policies n) = kBanComputedFields \<longrightarrow>
      addExpressionForPath n path expr = Inl InvariantFailure) \<and>
   (CHR ''.'' \<in> set field \<longrightarrow> addChild n field = Inl InvariantFailure) \<and>
   (CHR ''.'' \<notin> set field \<longrightarrow> (\<exists>r. addChild n field = Inr r)) \<and>
   (subtreeAllowsComputedFields n \<and> (\<forall>c \<in> set (fst path # snd path). CHR ''.'' \<notin> set c) \<longrightarrow>
      (\<exists>n'. addExpressionForPath n path expr = Inr n')) \<and>
   ((\<forall>c \<in> set (fst path # snd path). CHR ''.'' \<notin> set c) \<longrightarrow>
      (\<exists>n'. addProjectionForPath n path = Inr n'))"
proof (intro conjI impI)
  assume "computedFieldsPolicy (policies n) = kBanComputedFields"
  then show "addExpressionForPath n path expr = Inl InvariantFailure"
    by (cases path; cases "snd path") auto
next
  assume "CHR ''.'' \<in> set field"
  then show "addChild n field = Inl InvariantFailure" by (simp add: addChild_def)
next
  assume "CHR ''.'' \<notin> set field"
  then show "\<exists>r. addChild n field = Inr r"
    by (cases n) (auto simp: addChild_def split: option.splits)
next
  assume "subtreeAllowsComputedFields n \<and> (\<forall>c \<in> set (fst path # snd path). CHR ''.'' \<notin> set c)"
  then show "\<exists>n'. addExpressionForPath n path expr = Inr n'"
    using addExpressionForPath_returns [of n "fst path" "snd path" expr] by simp
next
  assume "\<forall>c \<in> set (fst path # snd path). CHR ''.'' \<notin> set c"
  then show "\<exists>n'. addProjectionForPath n path = Inr n'"
    using addProjectionForPath_returns [of "fst path" "snd path" n] by simp
qed

theorem construction_aborts_witness:
  "addExpressionForPath
      (newNode Inclusion (samplePolicies\<lparr>computedFieldsPolicy := kBanComputedFields\<rparr>) [])
      (''a'', [''b'']) (1 :: int) = Inl InvariantFailure \<and>
   addChild (newNode Inclusion samplePolicies [] :: int ProjectionNode) ''a.b''
     = Inl InvariantFailure \<and>
   (\<exists>r. addChild (newNode Inclusion samplePolicies [] :: int ProjectionNode) ''a'' = Inr r) \<and>
   (\<exists>n'. addExpressionForPath (newNode Inclusion samplePolicies []) (''a'', [''b'']) (1 :: int)
           = Inr n') \<and>
   (\<exists>n'. addProjectionForPath (newNode Inclusion samplePolicies [] :: int ProjectionNode)
           (''a'', [''b'']) = Inr n')"
  using construction_aborts
          [where n = "newNode Inclusion (samplePolicies\<lparr>computedFieldsPolicy := kBanComputedFields\<rparr>) []"
             and path = "(''a'', [''b''])" and expr = "1 :: int" and field = "''a.b''"]
        construction_aborts
          [where n = "newNode Inclusion samplePolicies [] :: int ProjectionNode"
             and path = "(''a'', [''b''])" and expr = "1 :: int" and field = "''a.b''"]
        construction_aborts
          [where n = "newNode Inclusion samplePolicies [] :: int ProjectionNode"
             and path = "(''a'', [''b''])" and expr = "1 :: int" and field = "''a''"]
  by (simp add: newNode_def samplePolicies_def)

section \<open>Single fields in the structural projection pass\<close>

lemma map_of_setField: "map_of (setField k v fs) = (map_of fs)(k \<mapsto> v)"
  by (simp add: setField_def update_conv')

lemma keys_setField:
  "map fst (setField k v fs) = (if k \<in> fst ` set fs then map fst fs else map fst fs @ [k])"
  by (simp add: setField_def update_keys)

lemma getField_setField: "getField (setField k v fs) k' = (if k' = k then v else getField fs k')"
  by (simp add: getField_def map_of_setField)

lemma Fields_untouched:
  "k \<notin> fst ` set fs \<Longrightarrow> map_of (applyProjectionsFields n fs out) k = map_of out k"
proof (induction fs arbitrary: out)
  case Nil
  show ?case by simp
next
  case (Cons kv fs)
  obtain k' v' where kv: "kv = (k', v')" by (cases kv)
  from Cons.prems kv have ne: "k \<noteq> k'" and rest: "k \<notin> fst ` set fs" by auto
  from Cons.IH [OF rest] ne show ?case
    by (simp add: kv outputProjectedField_def map_of_setField split: option.splits)
qed

lemma Fields_touched:
  "distinct (map fst fs) \<Longrightarrow> (k, v) \<in> set fs \<Longrightarrow>
   map_of (applyProjectionsFields n fs out) k =
     (if k \<in> set (projectedFields n) then Some (applyLeafProjectionToValue (nodeMode n) v)
      else (case map_of (children n) k of
              Some c \<Rightarrow> Some (applyProjectionsToValue c v)
            | None \<Rightarrow> map_of out k))"
proof (induction fs arbitrary: out)
  case Nil
  then show ?case by simp
next
  case (Cons kv fs)
  obtain k' v' where kv: "kv = (k', v')" by (cases kv)
  show ?case
  proof (cases "k' = k")
    case True
    with Cons.prems kv have v: "v' = v" and notin: "k \<notin> fst ` set fs"
      by (auto simp: rev_image_eqI)
    show ?thesis
      by (simp add: kv True v outputProjectedField_def map_of_setField Fields_untouched [OF notin]
          split: option.splits)
  next
    case False
    with Cons.prems kv have "distinct (map fst fs)" and "(k, v) \<in> set fs" by auto
    from Cons.IH [OF this] False show ?thesis
      by (simp add: kv outputProjectedField_def map_of_setField split: option.splits)
  qed
qed

lemma outputMissingFields_map_of:
  "map_of (outputMissingFields names inp out) k =
     (if k \<in> set names \<and> missing (getField inp k) then Some Missing else map_of out k)"
  by (induction names arbitrary: out) (auto simp: outputProjectedField_def map_of_setField)

lemma leaf_true_missing:
  "missing (applyLeafProjectionToValue m (Scalar (SBool True))) \<longleftrightarrow> m = Exclusion"
  by (cases m) (simp_all add: applyLeafProjectionToValue_def missing_def)

lemma fieldIterator_distinct:
  "distinct (map fst fs) \<Longrightarrow> distinct (map fst (fieldIterator fs))"
  by (simp add: fieldIterator_def distinct_map_filter)

lemma getField_distinct:
  "distinct (map fst fs) \<Longrightarrow> (k, v) \<in> set fs \<Longrightarrow> getField fs k = v"
  by (simp add: getField_def)

lemma applyProjections_touched:
  assumes d: "distinct (map fst inp)" and kv: "(k, v) \<in> set (fieldIterator inp)"
  shows "map_of (applyProjections n inp out) k =
     (if k \<in> set (projectedFields n) then Some (applyLeafProjectionToValue (nodeMode n) v)
      else (case map_of (children n) k of
              Some c \<Rightarrow> Some (applyProjectionsToValue c v)
            | None \<Rightarrow> map_of out k))"
proof -
  from kv have v: "(k, v) \<in> set inp" "\<not> missing v" by (auto simp: fieldIterator_def)
  from getField_distinct [OF d v(1)] v(2) have nm: "\<not> missing (getField inp k)" by simp
  from nm have lf: "nodeMode n = Exclusion \<Longrightarrow> applyLeafProjectionToValue (nodeMode n) v = Missing"
    by (simp add: applyLeafProjectionToValue_def)
  from Fields_touched [OF fieldIterator_distinct [OF d] kv, of n out] nm show ?thesis
    by (simp add: Let_def outputMissingFields_map_of leaf_true_missing)
qed

section \<open>The order of the slots\<close>

lemma keyset_setField: "fst ` set (setField k v fs) = insert k (fst ` set fs)"
  by (simp add: setField_def dom_update)

lemma filter_fresh_setField:
  "k \<notin> fst ` set fs \<Longrightarrow>
   filter (\<lambda>k'. k' \<notin> fst ` set (setField k w out) \<and> Q k') (map fst fs)
     = filter (\<lambda>k'. k' \<notin> fst ` set out \<and> Q k') (map fst fs)"
  by (rule filter_cong [OF refl]) (auto simp: keyset_setField)

lemma Fields_keys:
  "distinct (map fst fs) \<Longrightarrow>
   map fst (applyProjectionsFields n fs out) =
     map fst out @
     filter (\<lambda>k. k \<notin> fst ` set out \<and> (k \<in> set (projectedFields n) \<or> map_of (children n) k \<noteq> None))
       (map fst fs)"
proof (induction fs arbitrary: out)
  case Nil
  show ?case by simp
next
  case (Cons kv fs)
  obtain k v where kv: "kv = (k, v)" by (cases kv)
  from Cons.prems kv have d: "distinct (map fst fs)" and nk: "k \<notin> fst ` set fs" by auto
  show ?case
    by (cases "map_of (children n) k")
       (simp_all add: kv Cons.IH [OF d] outputProjectedField_def keys_setField
          filter_fresh_setField [OF nk])
qed

lemma outputMissingFields_keys:
  "\<exists>ys. map fst (outputMissingFields names inp out) = map fst out @ ys \<and>
        set ys \<subseteq> {k. k \<in> set names \<and> missing (getField inp k)} \<and>
        set ys \<inter> fst ` set out = {}"
proof (induction names arbitrary: out)
  case Nil
  show ?case by simp
next
  case (Cons name names)
  show ?case
  proof (cases "missing (getField inp name) \<and> name \<notin> fst ` set out")
    case True
    from Cons.IH [of "setField name Missing out"]
    obtain ys where ys: "map fst (outputMissingFields names inp (setField name Missing out))
          = map fst (setField name Missing out) @ ys"
        "set ys \<subseteq> {k. k \<in> set names \<and> missing (getField inp k)}"
        "set ys \<inter> fst ` set (setField name Missing out) = {}" by blast
    from True have ks: "map fst (setField name Missing out) = map fst out @ [name]"
      by (simp add: keys_setField)
    have "fst ` set (setField name Missing out) = insert name (fst ` set out)"
      by (rule keyset_setField)
    with ys True ks show ?thesis
      by (intro exI [of _ "name # ys"]) (auto simp: outputProjectedField_def)
  next
    case False
    from Cons.IH [of out] obtain ys where ys: "map fst (outputMissingFields names inp out)
          = map fst out @ ys"
        "set ys \<subseteq> {k. k \<in> set names \<and> missing (getField inp k)}"
        "set ys \<inter> fst ` set out = {}" by blast
    from Cons.IH [of "setField name Missing out"]
    obtain zs where zs: "map fst (outputMissingFields names inp (setField name Missing out))
          = map fst (setField name Missing out) @ zs"
        "set zs \<subseteq> {k. k \<in> set names \<and> missing (getField inp k)}"
        "set zs \<inter> fst ` set (setField name Missing out) = {}" by blast
    show ?thesis
    proof (cases "missing (getField inp name)")
      case True
      with False have "name \<in> fst ` set out" by simp
      then have "map fst (setField name Missing out) = map fst out"
        and "fst ` set (setField name Missing out) = fst ` set out"
        by (auto simp: keys_setField keyset_setField)
      with zs True show ?thesis
        by (intro exI [of _ zs]) (auto simp: outputProjectedField_def)
    next
      case False
      with ys show ?thesis by (intro exI [of _ ys]) auto
    qed
  qed
qed

lemma applyExpressionsOrder_keys:
  "applyExpressionsOrder ev n root ord out = Inr r \<Longrightarrow>
   \<exists>ys. map fst r = map fst out @ ys \<and> set ys \<inter> fst ` set out = {}"
proof (induction ord arbitrary: out)
  case Nil
  then show ?case by simp
next
  case (Cons field ord)
  from Cons.prems obtain w where
    step: "applyExpressionsOrder ev n root ord (setField field w out) = Inr r"
    by (auto split: option.splits sum.splits)
  from Cons.IH [OF step] obtain ys where
    ys: "map fst r = map fst (setField field w out) @ ys"
        "set ys \<inter> fst ` set (setField field w out) = {}" by blast
  have ks: "fst ` set (setField field w out) = insert field (fst ` set out)"
    by (rule keyset_setField)
  show ?case
  proof (cases "field \<in> fst ` set out")
    case True
    with ys ks show ?thesis by (intro exI [of _ ys]) (auto simp: keys_setField)
  next
    case False
    with ys ks show ?thesis by (intro exI [of _ "field # ys"]) (auto simp: keys_setField)
  qed
qed

lemma filter_present_keys_aux:
  "distinct (map fst fs) \<Longrightarrow>
   filter (\<lambda>k. Q k \<and> k \<in> fst ` set (filter R fs)) (map fst fs) = filter Q (map fst (filter R fs))"
proof (induction fs)
  case Nil
  show ?case by simp
next
  case (Cons kv fs)
  from Cons.prems have d: "distinct (map fst fs)" and nk: "fst kv \<notin> fst ` set fs" by auto
  have tl: "filter (\<lambda>k'. Q k' \<and> k' \<in> fst ` set (filter R (kv # fs))) (map fst fs)
          = filter (\<lambda>k'. Q k' \<and> k' \<in> fst ` set (filter R fs)) (map fst fs)"
  proof (rule filter_cong [OF refl])
    fix k'
    assume "k' \<in> set (map fst fs)"
    with nk have "k' \<noteq> fst kv" by force
    then show "(Q k' \<and> k' \<in> fst ` set (filter R (kv # fs)))
             = (Q k' \<and> k' \<in> fst ` set (filter R fs))"
      by auto
  qed
  from nk have nk': "fst kv \<notin> fst ` set (filter R fs)" by auto
  have hdT: "R kv \<Longrightarrow>
      filter (\<lambda>k. Q k \<and> k \<in> fst ` set (filter R (kv # fs))) [fst kv] = filter Q [fst kv]"
    by simp
  have hdF: "\<not> R kv \<Longrightarrow>
      filter (\<lambda>k. Q k \<and> k \<in> fst ` set (filter R (kv # fs))) [fst kv] = []"
    using nk' by simp
  have sp: "filter P (map fst (kv # fs)) = filter P [fst kv] @ filter P (map fst fs)" for P
    by simp
  show ?case
  proof (cases "R kv")
    case True
    have "filter (\<lambda>k. Q k \<and> k \<in> fst ` set (filter R (kv # fs))) (map fst (kv # fs))
        = filter Q [fst kv] @ filter Q (map fst (filter R fs))"
      by (simp only: sp hdT [OF True] tl Cons.IH [OF d])
    with True show ?thesis by simp
  next
    case False
    have "filter (\<lambda>k. Q k \<and> k \<in> fst ` set (filter R (kv # fs))) (map fst (kv # fs))
        = [] @ filter Q (map fst (filter R fs))"
      by (simp only: sp hdF [OF False] tl Cons.IH [OF d])
    with False show ?thesis by simp
  qed
qed

lemma filter_present_keys:
  "distinct (map fst fs) \<Longrightarrow>
   filter (\<lambda>k. Q k \<and> k \<in> fst ` set (fieldIterator fs)) (map fst fs)
     = filter Q (map fst (fieldIterator fs))"
  unfolding fieldIterator_def by (rule filter_present_keys_aux)

lemma keys_in_map_of: "k \<in> fst ` set fs \<longleftrightarrow> map_of fs k \<noteq> None"
  by (simp add: map_of_eq_None_iff)

lemma applyProjections_keys:
  assumes d: "distinct (map fst inp)"
  shows "\<exists>ys. map fst (applyProjections n inp out) =
           map fst out @
           filter (\<lambda>k. k \<notin> fst ` set out \<and>
                       (k \<in> set (projectedFields n) \<or> map_of (children n) k \<noteq> None))
             (map fst (fieldIterator inp)) @ ys \<and>
         set ys \<subseteq> {k. missing (getField inp k)} \<and>
         set ys \<inter> fst ` set out = {}"
proof -
  let ?mid = "applyProjectionsFields n (fieldIterator inp) out"
  let ?F = "filter (\<lambda>k. k \<notin> fst ` set out \<and>
                       (k \<in> set (projectedFields n) \<or> map_of (children n) k \<noteq> None))
             (map fst (fieldIterator inp))"
  have mid: "map fst ?mid = map fst out @ ?F"
    by (rule Fields_keys [OF fieldIterator_distinct [OF d]])
  show ?thesis
  proof (cases "nodeMode n")
    case Inclusion
    then have "applyProjections n inp out = ?mid"
      by (simp add: Let_def leaf_true_missing)
    with mid show ?thesis by (intro exI [of _ "[]"]) simp
  next
    case Exclusion
    then have ap: "applyProjections n inp out = outputMissingFields (projectedFields n) inp ?mid"
      by (simp add: Let_def leaf_true_missing)
    from outputMissingFields_keys [of "projectedFields n" inp ?mid]
    obtain ys where ys: "map fst (outputMissingFields (projectedFields n) inp ?mid) = map fst ?mid @ ys"
        "set ys \<subseteq> {k. k \<in> set (projectedFields n) \<and> missing (getField inp k)}"
        "set ys \<inter> fst ` set ?mid = {}" by blast
    have "set (map fst out) \<subseteq> set (map fst ?mid)"
      unfolding mid by simp
    then have sub: "fst ` set out \<subseteq> fst ` set ?mid" by simp
    have 1: "map fst (applyProjections n inp out) = map fst out @ ?F @ ys"
      unfolding ap ys(1) mid by simp
    have 2: "set ys \<subseteq> {k. missing (getField inp k)}" using ys(2) by blast
    have 3: "set ys \<inter> fst ` set out = {}" using ys(3) sub by blast
    from 1 2 3 show ?thesis by blast
  qed
qed

lemma present_not_missing:
  "distinct (map fst inp) \<Longrightarrow> k \<in> fst ` set (fieldIterator inp) \<Longrightarrow> \<not> missing (getField inp k)"
  by (auto simp: fieldIterator_def getField_def)

lemma seed_keys:
  "map fst (docFields (initializeOutputDocument m inputDoc)) =
     (case m of Inclusion \<Rightarrow> [] | Exclusion \<Rightarrow> map fst (docFields inputDoc))"
  by (cases m) (simp_all add: initializeOutputDocument_def emptyDocument_def)

lemma projection_order:
  assumes d: "distinct (map fst (docFields inputDoc))"
  shows "filter (\<lambda>k. k \<in> set (projectedFields n) \<and> k \<in> fst ` set (fieldIterator (docFields inputDoc)))
           (map fst (applyProjections n (docFields inputDoc)
                       (docFields (initializeOutputDocument (nodeMode n) inputDoc))))
         = filter (\<lambda>k. k \<in> set (projectedFields n)) (map fst (fieldIterator (docFields inputDoc)))"
    (is "filter ?P (map fst ?res) = ?rhs")
proof -
  let ?inp = "docFields inputDoc"
  let ?seed = "docFields (initializeOutputDocument (nodeMode n) inputDoc)"
  let ?F = "filter (\<lambda>k. k \<notin> fst ` set ?seed \<and>
                       (k \<in> set (projectedFields n) \<or> map_of (children n) k \<noteq> None))
             (map fst (fieldIterator ?inp))"
  from applyProjections_keys [OF d, of n ?seed]
  obtain ys where ys: "map fst ?res = map fst ?seed @ ?F @ ys"
      "set ys \<subseteq> {k. missing (getField ?inp k)}" by blast
  have "\<And>k. k \<in> set ys \<Longrightarrow> \<not> ?P k"
    using ys(2) present_not_missing [OF d] by blast
  then have ysP: "filter ?P ys = []" by (simp add: filter_empty_conv)
  have sub: "fst ` set (fieldIterator ?inp) \<subseteq> fst ` set ?inp"
    by (auto simp: fieldIterator_def)
  show ?thesis
  proof (cases "nodeMode n")
    case Inclusion
    then have s: "?seed = []" by (simp add: initializeOutputDocument_def emptyDocument_def)
    have "filter ?P ?F = ?rhs"
      unfolding s filter_filter by (rule filter_cong [OF refl]) auto
    with ys(1) ysP s show ?thesis by simp
  next
    case Exclusion
    then have s: "?seed = ?inp" by (simp add: initializeOutputDocument_def)
    have "?F = []" unfolding s using sub by (auto simp: filter_empty_conv)
    moreover have "filter ?P (map fst ?inp) = ?rhs"
      by (rule filter_present_keys [OF d])
    ultimately show ?thesis using ys(1) ysP s by simp
  qed
qed

section \<open>The structural projection pass\<close>

text \<open>
  C1. The structural projection pass goes through the fields of the input document
  in their order. For a field of the input (the names of the input being
  distinct): when its name is a projected field, its slot in the output holds the
  leaf projection of its value; otherwise, when its name has a child, the slot
  holds the child's projection of the value; otherwise the slot is as the seed
  left it. So the projected fields that the input has stand in the output of the
  pass in the order they have in the input, and they still do in the document
  that \<open>applyToDocument\<close> returns.
\<close>

theorem structural_projection_pass:
  "(distinct (map fst inp) \<and> (k, v) \<in> set (fieldIterator inp) \<longrightarrow>
      getField (applyProjections n inp out) k =
        (if k \<in> set (projectedFields n) then applyLeafProjectionToValue (nodeMode n) v
         else (case getChild n k of
                 Some c \<Rightarrow> applyProjectionsToValue c v
               | None \<Rightarrow> getField out k))) \<and>
   (distinct (map fst (docFields inputDoc)) \<longrightarrow>
      filter (\<lambda>k. k \<in> set (projectedFields n) \<and> k \<in> fst ` set (fieldIterator (docFields inputDoc)))
        (map fst (applyProjections n (docFields inputDoc)
                    (docFields (initializeOutputDocument (nodeMode n) inputDoc))))
      = filter (\<lambda>k. k \<in> set (projectedFields n)) (map fst (fieldIterator (docFields inputDoc)))) \<and>
   (distinct (map fst (docFields inputDoc)) \<and> applyToDocument ev n inputDoc = Inr outputDoc \<longrightarrow>
      filter (\<lambda>k. k \<in> set (projectedFields n) \<and> k \<in> fst ` set (fieldIterator (docFields inputDoc)))
        (map fst (docFields outputDoc))
      = filter (\<lambda>k. k \<in> set (projectedFields n)) (map fst (fieldIterator (docFields inputDoc))))"
proof (intro conjI impI)
  assume "distinct (map fst inp) \<and> (k, v) \<in> set (fieldIterator inp)"
  then show "getField (applyProjections n inp out) k =
        (if k \<in> set (projectedFields n) then applyLeafProjectionToValue (nodeMode n) v
         else (case getChild n k of
                 Some c \<Rightarrow> applyProjectionsToValue c v
               | None \<Rightarrow> getField out k))"
    using applyProjections_touched [of inp k v n out]
    by (simp add: getField_def getChild_def split: option.splits)
next
  assume "distinct (map fst (docFields inputDoc))"
  then show "filter (\<lambda>k. k \<in> set (projectedFields n) \<and> k \<in> fst ` set (fieldIterator (docFields inputDoc)))
        (map fst (applyProjections n (docFields inputDoc)
                    (docFields (initializeOutputDocument (nodeMode n) inputDoc))))
      = filter (\<lambda>k. k \<in> set (projectedFields n)) (map fst (fieldIterator (docFields inputDoc)))"
    by (rule projection_order)
next
  let ?P = "\<lambda>k. k \<in> set (projectedFields n) \<and> k \<in> fst ` set (fieldIterator (docFields inputDoc))"
  let ?proj = "applyProjections n (docFields inputDoc)
                    (docFields (initializeOutputDocument (nodeMode n) inputDoc))"
  let ?rhs = "filter (\<lambda>k. k \<in> set (projectedFields n)) (map fst (fieldIterator (docFields inputDoc)))"
  assume a: "distinct (map fst (docFields inputDoc)) \<and> applyToDocument ev n inputDoc = Inr outputDoc"
  then have d: "distinct (map fst (docFields inputDoc))" by simp
  from a obtain overlaid where ov: "applyExpressions ev n inputDoc ?proj = Inr overlaid"
      and out: "docFields outputDoc = overlaid"
    by (auto simp: applyToDocument_def Let_def copyMetaDataFrom_def split: sum.splits)
  from ov have "applyExpressionsOrder ev n inputDoc (orderToProcessAdditionsAndChildren n) ?proj
      = Inr overlaid" by simp
  from applyExpressionsOrder_keys [OF this]
  obtain zs where zs: "map fst overlaid = map fst ?proj @ zs" "set zs \<inter> fst ` set ?proj = {}"
    by blast
  have po: "filter ?P (map fst ?proj) = ?rhs" by (rule projection_order [OF d])
  have inproj: "k \<in> fst ` set ?proj" if "?P k" for k
  proof -
    from that have "k \<in> set ?rhs" by simp
    then have "k \<in> set (filter ?P (map fst ?proj))" by (simp only: po)
    then have "k \<in> set (map fst ?proj)" by (simp only: set_filter) blast
    then show ?thesis by (simp only: set_map)
  qed
  have "\<not> ?P k" if "k \<in> set zs" for k
    using that zs(2) inproj [of k] by blast
  then have "filter ?P zs = []" by (simp only: filter_empty_conv) blast
  then have "filter ?P (map fst ?proj @ zs) = ?rhs"
    by (simp only: filter_append po append_Nil2)
  then show "filter ?P (map fst (docFields outputDoc)) = ?rhs"
    by (simp only: out zs(1))
qed

theorem structural_projection_pass_witness:
  "distinct (map fst (docFields
       \<lparr>docFields = [(''b'', Scalar (SInt 1)), (''extra'', Scalar SNull), (''a'', Scalar (SInt 2))],
        docMeta = []\<rparr>)) \<and>
   applyToDocument literalEvaluate
       (ProjectionNode Inclusion samplePolicies [] [''a'', ''b''] [(''z'', 9)] [] [''z''])
       \<lparr>docFields = [(''b'', Scalar (SInt 1)), (''extra'', Scalar SNull), (''a'', Scalar (SInt 2))],
        docMeta = []\<rparr>
     = Inr \<lparr>docFields = [(''b'', Scalar (SInt 1)), (''a'', Scalar (SInt 2)), (''z'', Scalar (SInt 9))],
            docMeta = []\<rparr> \<and>
   filter (\<lambda>k. k \<in> set [''a'', ''b''] \<and> k \<in> set [''b'', ''extra'', ''a''])
       [''b'', ''a'', ''z'']
     = [''b'', ''a'']"
proof -
  let ?t = "ProjectionNode Inclusion samplePolicies [] [''a'', ''b''] [(''z'', 9)] [] [''z'']
              :: int ProjectionNode"
  let ?d = "\<lparr>docFields = [(''b'', Scalar (SInt 1)), (''extra'', Scalar SNull),
                           (''a'', Scalar (SInt 2))], docMeta = []\<rparr>"
  let ?o = "\<lparr>docFields = [(''b'', Scalar (SInt 1)), (''a'', Scalar (SInt 2)),
                           (''z'', Scalar (SInt 9))], docMeta = []\<rparr>"
  have h: "distinct (map fst (docFields ?d)) \<and> applyToDocument literalEvaluate ?t ?d = Inr ?o"
    by (simp add: applyToDocument_def initializeOutputDocument_def emptyDocument_def
        fieldIterator_def missing_def applyLeafProjectionToValue_def outputProjectedField_def
        setField_def literalEvaluate_def copyMetaDataFrom_def)
  from structural_projection_pass
         [where n = ?t and inputDoc = ?d and outputDoc = ?o and ev = literalEvaluate,
          THEN conjunct2, THEN conjunct2, rule_format, OF h]
  have "filter (\<lambda>k. k \<in> set (projectedFields ?t) \<and> k \<in> fst ` set (fieldIterator (docFields ?d)))
          (map fst (docFields ?o))
        = filter (\<lambda>k. k \<in> set (projectedFields ?t)) (map fst (fieldIterator (docFields ?d)))" .
  with h show ?thesis by (simp add: fieldIterator_def missing_def)
qed

section \<open>Projected fields that the input does not have\<close>

text \<open>
  C3. The leaf projection of the value \<open>true\<close> is missing in exclusion mode and
  only there. When it is missing, every projected name whose value in the input is
  missing has, after the structural projection pass, a slot of its own in the
  output, holding missing. When it is not missing, the pass leaves the slot of
  every name that is not a field of the input as it was: no slot is made for a
  projected field that the input does not have.
\<close>

theorem absent_projected_fields:
  "(missing (applyLeafProjectionToValue m (Scalar (SBool True))) \<longleftrightarrow> m = Exclusion) \<and>
   (missing (applyLeafProjectionToValue (nodeMode n) (Scalar (SBool True))) \<longrightarrow>
      (\<forall>k \<in> set (projectedFields n). missing (getField inputDoc k) \<longrightarrow>
         k \<in> fst ` set (applyProjections n inputDoc out) \<and>
         getField (applyProjections n inputDoc out) k = Missing)) \<and>
   (\<not> missing (applyLeafProjectionToValue (nodeMode n) (Scalar (SBool True))) \<longrightarrow>
      (\<forall>k. k \<notin> fst ` set (fieldIterator inputDoc) \<longrightarrow>
         map_of (applyProjections n inputDoc out) k = map_of out k))"
proof (intro conjI impI ballI allI)
  show "missing (applyLeafProjectionToValue m (Scalar (SBool True))) \<longleftrightarrow> m = Exclusion"
    by (rule leaf_true_missing)
next
  fix k
  assume p: "missing (applyLeafProjectionToValue (nodeMode n) (Scalar (SBool True)))"
    and k: "k \<in> set (projectedFields n)" and m: "missing (getField inputDoc k)"
  then have mo: "map_of (applyProjections n inputDoc out) k = Some Missing"
    by (simp add: Let_def outputMissingFields_map_of)
  then show "k \<in> fst ` set (applyProjections n inputDoc out)"
    by (simp add: keys_in_map_of)
  from mo show "getField (applyProjections n inputDoc out) k = Missing"
    by (simp add: getField_def)
next
  fix k
  assume "\<not> missing (applyLeafProjectionToValue (nodeMode n) (Scalar (SBool True)))"
    and "k \<notin> fst ` set (fieldIterator inputDoc)"
  then show "map_of (applyProjections n inputDoc out) k = map_of out k"
    by (simp add: Let_def Fields_untouched)
qed

theorem absent_projected_fields_witness:
  "missing (applyLeafProjectionToValue Exclusion (Scalar (SBool True))) \<and>
   missing (getField [(''a'', Scalar (SInt 1))] ''secret'') \<and>
   ''secret'' \<in> fst ` set (applyProjections
       (ProjectionNode Exclusion samplePolicies [] [''secret''] [] [] [] :: int ProjectionNode)
       [(''a'', Scalar (SInt 1))] [(''a'', Scalar (SInt 1))]) \<and>
   getField (applyProjections
       (ProjectionNode Exclusion samplePolicies [] [''secret''] [] [] [] :: int ProjectionNode)
       [(''a'', Scalar (SInt 1))] [(''a'', Scalar (SInt 1))]) ''secret'' = Missing \<and>
   \<not> missing (applyLeafProjectionToValue Inclusion (Scalar (SBool True))) \<and>
   ''secret'' \<notin> fst ` set (fieldIterator [(''a'', Scalar (SInt 1))]) \<and>
   map_of (applyProjections
       (ProjectionNode Inclusion samplePolicies [] [''secret''] [] [] [] :: int ProjectionNode)
       [(''a'', Scalar (SInt 1))] []) ''secret'' = None"
proof -
  let ?e = "ProjectionNode Exclusion samplePolicies [] [''secret''] [] [] [] :: int ProjectionNode"
  let ?i = "ProjectionNode Inclusion samplePolicies [] [''secret''] [] [] [] :: int ProjectionNode"
  let ?d = "[(''a'', Scalar (SInt 1))]"
  have pe: "missing (applyLeafProjectionToValue (nodeMode ?e) (Scalar (SBool True)))"
    and pi: "\<not> missing (applyLeafProjectionToValue (nodeMode ?i) (Scalar (SBool True)))"
    by (simp_all add: applyLeafProjectionToValue_def missing_def)
  have ke: "''secret'' \<in> set (projectedFields ?e)" and me: "missing (getField ?d ''secret'')"
    and ki: "''secret'' \<notin> fst ` set (fieldIterator ?d)"
    by (simp_all add: getField_def missing_def fieldIterator_def)
  from absent_projected_fields
         [where n = ?e and inputDoc = ?d and out = ?d,
          THEN conjunct2, THEN conjunct1, rule_format, OF pe ke me]
  have 1: "''secret'' \<in> fst ` set (applyProjections ?e ?d ?d) \<and>
           getField (applyProjections ?e ?d ?d) ''secret'' = Missing" .
  from absent_projected_fields
         [where n = ?i and inputDoc = ?d and out = "[]",
          THEN conjunct2, THEN conjunct2, rule_format, OF pi ki]
  have 2: "map_of (applyProjections ?i ?d []) ''secret'' = map_of [] ''secret''" .
  from 1 2 pe pi me ki show ?thesis by simp
qed

section \<open>A name that is both projected and a child\<close>

lemma projectedFields_putChild [simp]: "projectedFields (putChild n k c) = projectedFields n"
  by (cases n) (simp add: putChild_def)

lemma nodeMode_putChild [simp]: "nodeMode (putChild n k c) = nodeMode n"
  by (cases n) (simp add: putChild_def)

lemma children_putChild [simp]: "children (putChild n k c) = AList.update k c (children n)"
  by (cases n) (simp add: putChild_def)

lemma Fields_putChild:
  "k \<in> set (projectedFields n) \<Longrightarrow>
   applyProjectionsFields (putChild n k c') fs out = applyProjectionsFields n fs out"
proof (induction fs arbitrary: out)
  case Nil
  show ?case by simp
next
  case (Cons kv fs)
  obtain k' v' where kv: "kv = (k', v')" by (cases kv)
  from Cons show ?case
    by (cases "k' = k") (simp_all add: kv update_conv' split: option.splits)
qed

text \<open>
  C10. Adding the path \<open>a.b\<close> and then the path \<open>a\<close> to a new tree gives a node
  where \<open>a\<close> is a projected field and also has a child. At a node where a name is
  both, for an input document that has the field, the structural projection pass
  writes the leaf projection of the field's value; the child is not consulted: the
  pass gives the same output whatever child stands under that name.
\<close>

theorem projected_name_shadows_child:
  "(\<exists>t1 t2 c. addProjectionForPath (newNode m pol []) (''a'', [''b'']) = Inr t1 \<and>
       addProjectionForPath t1 (''a'', []) = Inr (t2 :: 'e ProjectionNode) \<and>
       ''a'' \<in> set (projectedFields t2) \<and> getChild t2 ''a'' = Some c) \<and>
   (k \<in> set (projectedFields n) \<and> getChild n k = Some c \<and>
      distinct (map fst inputDoc) \<and> (k, v) \<in> set (fieldIterator inputDoc) \<longrightarrow>
        getField (applyProjections n inputDoc out) k = applyLeafProjectionToValue (nodeMode n) v \<and>
        (\<forall>c'. applyProjections (putChild n k c') inputDoc out = applyProjections n inputDoc out))"
proof (intro conjI impI)
  show "\<exists>t1 t2 c. addProjectionForPath (newNode m pol []) (''a'', [''b'']) = Inr t1 \<and>
       addProjectionForPath t1 (''a'', []) = Inr (t2 :: 'e ProjectionNode) \<and>
       ''a'' \<in> set (projectedFields t2) \<and> getChild t2 ''a'' = Some c"
    by (simp add: newNode_def addOrGetChild_def getChild_def addChild_def makeChild_def
        putChild_def insertName_def)
next
  assume a: "k \<in> set (projectedFields n) \<and> getChild n k = Some c \<and>
      distinct (map fst inputDoc) \<and> (k, v) \<in> set (fieldIterator inputDoc)"
  then show "getField (applyProjections n inputDoc out) k = applyLeafProjectionToValue (nodeMode n) v"
    using applyProjections_touched [of inputDoc k v n out] by (simp add: getField_def)
  from a show "\<forall>c'. applyProjections (putChild n k c') inputDoc out = applyProjections n inputDoc out"
    by (simp add: Fields_putChild Let_def)
qed

theorem projected_name_shadows_child_witness:
  "''a'' \<in> set (projectedFields
       (ProjectionNode Inclusion samplePolicies [] [''a''] []
          [(''a'', ProjectionNode Inclusion samplePolicies ''a'' [''b''] [] [] [])] [''a'']
        :: int ProjectionNode)) \<and>
   getChild (ProjectionNode Inclusion samplePolicies [] [''a''] []
          [(''a'', ProjectionNode Inclusion samplePolicies ''a'' [''b''] [] [] [])] [''a'']
        :: int ProjectionNode) ''a''
     = Some (ProjectionNode Inclusion samplePolicies ''a'' [''b''] [] [] []) \<and>
   getField (applyProjections
       (ProjectionNode Inclusion samplePolicies [] [''a''] []
          [(''a'', ProjectionNode Inclusion samplePolicies ''a'' [''b''] [] [] [])] [''a'']
        :: int ProjectionNode)
       [(''a'', Object [(''b'', Scalar (SInt 1)), (''c'', Scalar (SInt 2))] [])] []) ''a''
     = Object [(''b'', Scalar (SInt 1)), (''c'', Scalar (SInt 2))] []"
proof -
  let ?c = "ProjectionNode Inclusion samplePolicies ''a'' [''b''] [] [] [] :: int ProjectionNode"
  let ?t = "ProjectionNode Inclusion samplePolicies [] [''a''] [] [(''a'', ?c)] [''a'']"
  let ?v = "Object [(''b'', Scalar (SInt 1)), (''c'', Scalar (SInt 2))] []"
  have h: "''a'' \<in> set (projectedFields ?t) \<and> getChild ?t ''a'' = Some ?c \<and>
      distinct (map fst [(''a'', ?v)]) \<and> (''a'', ?v) \<in> set (fieldIterator [(''a'', ?v)])"
    by (simp add: getChild_def fieldIterator_def missing_def)
  from projected_name_shadows_child
         [where n = ?t and k = "''a''" and c = ?c and inputDoc = "[(''a'', ?v)]" and v = ?v
            and out = "[]", THEN conjunct2, rule_format, OF h]
  have "getField (applyProjections ?t [(''a'', ?v)] []) ''a''
          = applyLeafProjectionToValue (nodeMode ?t) ?v" by (rule conjunct1)
  with h show ?thesis by (simp add: applyLeafProjectionToValue_def)
qed

section \<open>Serialize\<close>






section \<open>The expression overlay pass\<close>

lemma Order_untouched:
  "applyExpressionsOrder ev n root ord out = Inr out' \<Longrightarrow> f \<notin> set ord \<Longrightarrow>
   map_of out' f = map_of out f"
proof (induction ord arbitrary: out)
  case Nil
  then show ?case by simp
next
  case (Cons g ord)
  from Cons.prems(1) obtain w where
    step: "applyExpressionsOrder ev n root ord (setField g w out) = Inr out'"
    by (auto split: option.splits sum.splits)
  from Cons.IH [OF step] Cons.prems(2) show ?case by (simp add: map_of_setField)
qed

lemma Order_expression:
  "applyExpressionsOrder ev n root ord out = Inr out' \<Longrightarrow> f \<in> set ord \<Longrightarrow>
   map_of (children n) f = None \<Longrightarrow> map_of (expressions n) f = Some e \<Longrightarrow>
   getField out' f = ev e root"
proof (induction ord arbitrary: out)
  case Nil
  then show ?case by simp
next
  case (Cons g ord)
  have "\<exists>w. applyExpressionsOrder ev n root ord (setField g w out) = Inr out' \<and>
            (g = f \<longrightarrow> w = ev e root)"
    using Cons.prems(1,3,4)
    by (cases "map_of (children n) g"; cases "map_of (expressions n) g")
       (auto split: sum.splits)
  then obtain w where
    step: "applyExpressionsOrder ev n root ord (setField g w out) = Inr out'"
    and w: "g = f \<Longrightarrow> w = ev e root" by blast
  show ?case
  proof (cases "f \<in> set ord")
    case True
    from Cons.IH [OF step True Cons.prems(3,4)] show ?thesis .
  next
    case False
    with Cons.prems(2) have g: "g = f" by simp
    from Order_untouched [OF step False] w [OF g] g show ?thesis
      by (simp add: getField_def map_of_setField)
  qed
qed

lemma Order_child:
  "applyExpressionsOrder ev n root ord out = Inr out' \<Longrightarrow> distinct ord \<Longrightarrow> f \<in> set ord \<Longrightarrow>
   map_of (children n) f = Some c \<Longrightarrow>
   applyExpressionsToValue ev c root (getField out f) = Inr (getField out' f)"
proof (induction ord arbitrary: out)
  case Nil
  then show ?case by simp
next
  case (Cons g ord)
  have "\<exists>w. applyExpressionsOrder ev n root ord (setField g w out) = Inr out' \<and>
            (g = f \<longrightarrow> applyExpressionsToValue ev c root (getField out f) = Inr w)"
    using Cons.prems(1,4)
    by (cases "map_of (children n) g"; cases "map_of (expressions n) g")
       (auto split: sum.splits)
  then obtain w where
    step: "applyExpressionsOrder ev n root ord (setField g w out) = Inr out'"
    and w: "g = f \<Longrightarrow> applyExpressionsToValue ev c root (getField out f) = Inr w" by blast
  show ?case
  proof (cases "g = f")
    case True
    with Cons.prems(2) have "f \<notin> set ord" by simp
    from Order_untouched [OF step this] w [OF True] True show ?thesis
      by (simp add: getField_def map_of_setField)
  next
    case False
    with Cons.prems have "distinct ord" "f \<in> set ord" by auto
    from Cons.IH [OF step this Cons.prems(4)] False show ?thesis
      by (simp add: getField_setField)
  qed
qed

lemma Order_fresh_keys:
  "applyExpressionsOrder ev n root ord out = Inr out' \<Longrightarrow> distinct ord \<Longrightarrow>
   set ord \<inter> fst ` set out = {} \<Longrightarrow> map fst out' = map fst out @ ord"
proof (induction ord arbitrary: out)
  case Nil
  then show ?case by simp
next
  case (Cons g ord)
  from Cons.prems(1) obtain w where
    step: "applyExpressionsOrder ev n root ord (setField g w out) = Inr out'"
    by (auto split: option.splits sum.splits)
  from Cons.prems have "distinct ord" "set ord \<inter> fst ` set (setField g w out) = {}"
    by (auto simp: keyset_setField)
  from Cons.IH [OF step this] Cons.prems(3) show ?case
    by (simp add: keys_setField)
qed

lemma subtreeContainsComputedFields_iff:
  "subtreeContainsComputedFields n \<longleftrightarrow>
     (expressions n \<noteq> [] \<or> (\<exists>c \<in> snd ` set (children n). subtreeContainsComputedFields c))"
  by (cases n) (auto simp: list_ex_iff)

lemma applyExpressionsToArray_all2:
  "applyExpressionsToArray ev n root vs = Inr vs' \<longleftrightarrow>
     list_all2 (\<lambda>v v'. applyExpressionsToValue ev n root v = Inr v') vs vs'"
proof (induction vs arbitrary: vs')
  case Nil
  show ?case by auto
next
  case (Cons v vs)
  show ?case
  proof (cases vs')
    case Nil
    then show ?thesis by (auto split: sum.splits)
  next
    case (Cons w ws)
    with Cons.IH [of ws] show ?thesis by (auto split: sum.splits)
  qed
qed

lemma expression_below_contains:
  "getExpressionForPath n (f, gs) = Some e \<Longrightarrow> subtreeContainsComputedFields n"
proof (induction gs arbitrary: n f)
  case Nil
  then show ?case by (cases n) auto
next
  case (Cons g gs)
  from Cons.prems obtain c where c: "map_of (children n) f = Some c"
    and r: "getExpressionForPath c (g, gs) = Some e"
    by (auto simp: getChild_def split: option.splits)
  from Cons.IH [OF r] have "subtreeContainsComputedFields c" .
  with map_of_SomeD [OF c] show ?case
    by (cases n) (force simp: list_ex_iff)
qed

lemma expression_at_depth:
  "declaredAlong n (f, gs) \<Longrightarrow> getExpressionForPath n (f, gs) = Some e \<Longrightarrow>
   noArrayAlong out (f, gs) \<Longrightarrow> applyExpressions ev n root out = Inr out' \<Longrightarrow>
   valueAtPath out' (f, gs) = ev e root"
proof (induction gs arbitrary: n f out out')
  case Nil
  then show ?case
    using Order_expression [of ev n root "orderToProcessAdditionsAndChildren n" out out' f e]
    by (simp add: getChild_def)
next
  case (Cons g gs)
  from Cons.prems(1) obtain c where c: "map_of (children n) f = Some c"
    and dc: "declaredAlong c (g, gs)"
    and fin: "f \<in> set (orderToProcessAdditionsAndChildren n)"
    and dist: "distinct (orderToProcessAdditionsAndChildren n)"
    by (auto simp: getChild_def split: option.splits)
  from Cons.prems(2) c have ec: "getExpressionForPath c (g, gs) = Some e"
    by (simp add: getChild_def)
  from Cons.prems(4)
  have "applyExpressionsOrder ev n root (orderToProcessAdditionsAndChildren n) out = Inr out'"
    by simp
  from Order_child [OF this dist fin c]
  have step: "applyExpressionsToValue ev c root (getField out f) = Inr (getField out' f)" .
  have sc: "subtreeContainsComputedFields c" by (rule expression_below_contains [OF ec])
  show ?case
  proof (cases "getField out f")
    case Missing
    with step sc obtain sub where s: "applyExpressions ev c root [] = Inr sub"
      and o: "getField out' f = Object sub []"
      by (auto split: sum.splits)
    have "noArrayAlong [] (g, gs)" by (cases gs) (simp_all add: getField_def)
    from Cons.IH [OF dc ec this s] o show ?thesis by simp
  next
    case (Scalar s')
    with step sc obtain sub where s: "applyExpressions ev c root [] = Inr sub"
      and o: "getField out' f = Object sub []"
      by (auto split: sum.splits)
    have "noArrayAlong [] (g, gs)" by (cases gs) (simp_all add: getField_def)
    from Cons.IH [OF dc ec this s] o show ?thesis by simp
  next
    case (Object fs md)
    with step obtain sub where s: "applyExpressions ev c root fs = Inr sub"
      and o: "getField out' f = Object sub md"
      by (auto split: sum.splits)
    from Cons.prems(3) Object have "noArrayAlong fs (g, gs)" by simp
    from Cons.IH [OF dc ec this s] o show ?thesis by simp
  next
    case (Array vs)
    with Cons.prems(3) show ?thesis by simp
  qed
qed

text \<open>
  C2. \<open>applyToDocument\<close> runs the overlay pass on the output of the projection
  pass, with the input document as root. The pass goes through the declared names
  in order: the slot of a name that has no child holds the value of its expression
  at the root; the slot of a name with a child holds the child's overlay, with the
  same root, of the value the slot had (each name being declared once); names
  that have no slot yet get their slots in declaration order. On a missing or
  scalar value the overlay of a child is a new document, built by the child's
  overlay pass from the empty document, exactly when the subtree of the child
  contains an expression (the node has one, or the subtree of one of its children
  does); otherwise it is the skipped-value transform of the value. In particular
  the tree with the one expression at the path \<open>a.x\<close>, applied to a document
  whose field \<open>a\<close> is a scalar, returns the document whose field \<open>a\<close> is the
  document with the one field \<open>x\<close>, the value of the expression at the input
  document. On a nested document the overlay of a child is the child's overlay
  pass on that document, with the same root, and on an array it is the overlay of
  each element. So at any depth: for an expression at a declared path, with no
  array on the way, the output holds at that path the value of the expression at
  the root, which for \<open>applyToDocument\<close> is the input document.
\<close>

theorem expression_overlay_pass:
  "applyToDocument ev n inputDoc =
     (case applyExpressions ev n inputDoc
             (applyProjections n (docFields inputDoc)
                (docFields (initializeOutputDocument (nodeMode n) inputDoc))) of
        Inl a \<Rightarrow> Inl a
      | Inr fs \<Rightarrow> Inr \<lparr>docFields = fs, docMeta = docMeta inputDoc\<rparr>) \<and>
   (applyExpressions ev n root out = Inr out' \<and>
      f \<in> set (orderToProcessAdditionsAndChildren n) \<and>
      getChild n f = None \<and> map_of (expressions n) f = Some e \<longrightarrow>
        getField out' f = ev e root) \<and>
   (applyExpressions ev n root out = Inr out' \<and>
      distinct (orderToProcessAdditionsAndChildren n) \<and>
      f \<in> set (orderToProcessAdditionsAndChildren n) \<and> getChild n f = Some c \<longrightarrow>
        applyExpressionsToValue ev c root (getField out f) = Inr (getField out' f)) \<and>
   (applyExpressions ev n root out = Inr out' \<and>
      distinct (orderToProcessAdditionsAndChildren n) \<and>
      set (orderToProcessAdditionsAndChildren n) \<inter> fst ` set out = {} \<longrightarrow>
        map fst out' = map fst out @ orderToProcessAdditionsAndChildren n) \<and>
   applyExpressionsToValue ev n root Missing =
     (if subtreeContainsComputedFields n
      then (case applyExpressions ev n root [] of
              Inl a \<Rightarrow> Inl a
            | Inr fs \<Rightarrow> Inr (Object fs []))
      else Inr (transformSkippedValueForOutput (nodeMode n) Missing)) \<and>
   applyExpressionsToValue ev n root (Scalar s) =
     (if subtreeContainsComputedFields n
      then (case applyExpressions ev n root [] of
              Inl a \<Rightarrow> Inl a
            | Inr fs \<Rightarrow> Inr (Object fs []))
      else Inr (transformSkippedValueForOutput (nodeMode n) (Scalar s))) \<and>
   (subtreeContainsComputedFields n \<longleftrightarrow>
      (expressions n \<noteq> [] \<or>
       (\<exists>c \<in> snd ` set (children n). subtreeContainsComputedFields c))) \<and>
   (computedFieldsPolicy pol = kAllowComputedFields \<longrightarrow>
      (\<exists>t. addExpressionForPath (newNode m pol []) (''a'', [''x'']) e = Inr t \<and>
         applyToDocument ev t \<lparr>docFields = [(''a'', Scalar s)], docMeta = md\<rparr>
           = Inr \<lparr>docFields =
                    [(''a'', Object
                       [(''x'', ev e \<lparr>docFields = [(''a'', Scalar s)], docMeta = md\<rparr>)] [])],
                  docMeta = md\<rparr>)) \<and>
   applyExpressionsToValue ev n root (Object fs md) =
     (case applyExpressions ev n root fs of
        Inl a \<Rightarrow> Inl a
      | Inr fs' \<Rightarrow> Inr (Object fs' md)) \<and>
   (applyExpressionsToValue ev n root (Array vs) = Inr r \<longleftrightarrow>
      (\<exists>vs'. r = Array vs' \<and>
         list_all2 (\<lambda>v v'. applyExpressionsToValue ev n root v = Inr v') vs vs')) \<and>
   (declaredAlong n p \<and> getExpressionForPath n p = Some e \<and> noArrayAlong out p \<and>
      applyExpressions ev n root out = Inr out' \<longrightarrow>
        valueAtPath out' p = ev e root) \<and>
   (declaredAlong n p \<and> getExpressionForPath n p = Some e \<and>
      noArrayAlong (applyProjections n (docFields inputDoc)
                      (docFields (initializeOutputDocument (nodeMode n) inputDoc))) p \<and>
      applyToDocument ev n inputDoc = Inr outputDoc \<longrightarrow>
        valueAtPath (docFields outputDoc) p = ev e inputDoc)"
proof (intro conjI impI)
  show "applyToDocument ev n inputDoc =
     (case applyExpressions ev n inputDoc
             (applyProjections n (docFields inputDoc)
                (docFields (initializeOutputDocument (nodeMode n) inputDoc))) of
        Inl a \<Rightarrow> Inl a
      | Inr fs \<Rightarrow> Inr \<lparr>docFields = fs, docMeta = docMeta inputDoc\<rparr>)"
    by (cases "nodeMode n")
       (simp_all add: applyToDocument_def Let_def copyMetaDataFrom_def
          initializeOutputDocument_def emptyDocument_def split: sum.splits)
next
  assume "applyExpressions ev n root out = Inr out' \<and>
      f \<in> set (orderToProcessAdditionsAndChildren n) \<and>
      getChild n f = None \<and> map_of (expressions n) f = Some e"
  then show "getField out' f = ev e root"
    using Order_expression [of ev n root "orderToProcessAdditionsAndChildren n" out out' f e]
    by (simp add: getChild_def)
next
  assume "applyExpressions ev n root out = Inr out' \<and>
      distinct (orderToProcessAdditionsAndChildren n) \<and>
      f \<in> set (orderToProcessAdditionsAndChildren n) \<and> getChild n f = Some c"
  then show "applyExpressionsToValue ev c root (getField out f) = Inr (getField out' f)"
    using Order_child [of ev n root "orderToProcessAdditionsAndChildren n" out out' f c]
    by (simp add: getChild_def)
next
  assume "applyExpressions ev n root out = Inr out' \<and>
      distinct (orderToProcessAdditionsAndChildren n) \<and>
      set (orderToProcessAdditionsAndChildren n) \<inter> fst ` set out = {}"
  then show "map fst out' = map fst out @ orderToProcessAdditionsAndChildren n"
    using Order_fresh_keys [of ev n root "orderToProcessAdditionsAndChildren n" out out']
    by simp
next
  show "applyExpressionsToValue ev n root Missing =
     (if subtreeContainsComputedFields n
      then (case applyExpressions ev n root [] of
              Inl a \<Rightarrow> Inl a
            | Inr fs \<Rightarrow> Inr (Object fs []))
      else Inr (transformSkippedValueForOutput (nodeMode n) Missing))"
    by simp
next
  show "applyExpressionsToValue ev n root (Scalar s) =
     (if subtreeContainsComputedFields n
      then (case applyExpressions ev n root [] of
              Inl a \<Rightarrow> Inl a
            | Inr fs \<Rightarrow> Inr (Object fs []))
      else Inr (transformSkippedValueForOutput (nodeMode n) (Scalar s)))"
    by simp
next
  show "subtreeContainsComputedFields n \<longleftrightarrow>
      (expressions n \<noteq> [] \<or>
       (\<exists>c \<in> snd ` set (children n). subtreeContainsComputedFields c))"
    by (rule subtreeContainsComputedFields_iff)
next
  assume pol: "computedFieldsPolicy pol = kAllowComputedFields"
  let ?c = "ProjectionNode m pol ''a'' [] [(''x'', e)] [] [''x'']"
  let ?t = "ProjectionNode m pol [] [] [] [(''a'', ?c)] [''a'']"
  let ?d = "\<lparr>docFields = [(''a'', Scalar s)], docMeta = md\<rparr>"
  have built: "addExpressionForPath (newNode m pol []) (''a'', [''x'']) e = Inr ?t"
    using pol
    by (simp add: newNode_def addOrGetChild_def getChild_def addChild_def makeChild_def
        putChild_def getFullyQualifiedPath_def)
  have "applyToDocument ev ?t ?d
      = Inr \<lparr>docFields = [(''a'', Object [(''x'', ev e ?d)] [])], docMeta = md\<rparr>"
    by (cases m)
       (simp_all add: applyToDocument_def Let_def copyMetaDataFrom_def
          initializeOutputDocument_def emptyDocument_def fieldIterator_def missing_def
          outputProjectedField_def setField_def getField_def
          applyLeafProjectionToValue_def transformSkippedValueForOutput_def)
  with built show "\<exists>t. addExpressionForPath (newNode m pol []) (''a'', [''x'']) e = Inr t \<and>
         applyToDocument ev t ?d
           = Inr \<lparr>docFields = [(''a'', Object [(''x'', ev e ?d)] [])], docMeta = md\<rparr>"
    by blast
next
  show "applyExpressionsToValue ev n root (Object fs md) =
     (case applyExpressions ev n root fs of
        Inl a \<Rightarrow> Inl a
      | Inr fs' \<Rightarrow> Inr (Object fs' md))"
    by simp
next
  show "applyExpressionsToValue ev n root (Array vs) = Inr r \<longleftrightarrow>
      (\<exists>vs'. r = Array vs' \<and>
         list_all2 (\<lambda>v v'. applyExpressionsToValue ev n root v = Inr v') vs vs')"
    using applyExpressionsToArray_all2 [of ev n root vs]
    by (cases "applyExpressionsToArray ev n root vs") auto
next
  assume "declaredAlong n p \<and> getExpressionForPath n p = Some e \<and> noArrayAlong out p \<and>
      applyExpressions ev n root out = Inr out'"
  then show "valueAtPath out' p = ev e root"
    using expression_at_depth [of n "fst p" "snd p" e out ev root out'] by simp
next
  let ?proj = "applyProjections n (docFields inputDoc)
                 (docFields (initializeOutputDocument (nodeMode n) inputDoc))"
  assume a: "declaredAlong n p \<and> getExpressionForPath n p = Some e \<and>
      noArrayAlong ?proj p \<and> applyToDocument ev n inputDoc = Inr outputDoc"
  then obtain overlaid where ov: "applyExpressions ev n inputDoc ?proj = Inr overlaid"
      and out: "docFields outputDoc = overlaid"
    by (auto simp: applyToDocument_def Let_def copyMetaDataFrom_def split: sum.splits)
  from a have d: "declaredAlong n (fst p, snd p)"
    and g: "getExpressionForPath n (fst p, snd p) = Some e"
    and na: "noArrayAlong ?proj (fst p, snd p)" by simp_all
  from expression_at_depth [OF d g na ov] out
  show "valueAtPath (docFields outputDoc) p = ev e inputDoc" by simp
qed

theorem expression_overlay_pass_witness:
  "computedFieldsPolicy samplePolicies = kAllowComputedFields \<and>
   (\<exists>t. addExpressionForPath (newNode Exclusion samplePolicies []) (''a'', [''x'']) ''a''
          = Inr t \<and>
        applyToDocument fieldRefEvaluate t
            \<lparr>docFields = [(''a'', Scalar (SInt 5))], docMeta = []\<rparr>
          = Inr \<lparr>docFields = [(''a'', Object [(''x'', Scalar (SInt 5))] [])], docMeta = []\<rparr>) \<and>
   applyExpressions fieldRefEvaluate
       (ProjectionNode Inclusion samplePolicies [] [] [(''age'', ''n'')] [] [''age''])
       \<lparr>docFields = [(''n'', Scalar (SInt 30))], docMeta = []\<rparr> []
     = Inr [(''age'', Scalar (SInt 30))] \<and>
   getField [(''age'', Scalar (SInt 30))] ''age''
     = fieldRefEvaluate ''n'' \<lparr>docFields = [(''n'', Scalar (SInt 30))], docMeta = []\<rparr> \<and>
   applyToDocument fieldRefEvaluate
       (ProjectionNode Exclusion samplePolicies [] [] []
          [(''a'', ProjectionNode Exclusion samplePolicies ''a'' [] []
                     [(''b'', ProjectionNode Exclusion samplePolicies ''a.b'' []
                                [(''x'', ''r'')] [] [''x''])]
                     [''b''])]
          [''a''])
       \<lparr>docFields = [(''r'', Scalar (SString ''root'')),
                     (''a'', Object [(''r'', Scalar (SString ''inner'')),
                                     (''b'', Scalar (SInt 5))] [])],
        docMeta = []\<rparr>
     = Inr \<lparr>docFields = [(''r'', Scalar (SString ''root'')),
                     (''a'', Object [(''r'', Scalar (SString ''inner'')),
                                     (''b'', Object [(''x'', Scalar (SString ''root''))] [])] [])],
            docMeta = []\<rparr> \<and>
   valueAtPath [(''r'', Scalar (SString ''root'')),
                (''a'', Object [(''r'', Scalar (SString ''inner'')),
                                (''b'', Object [(''x'', Scalar (SString ''root''))] [])] [])]
       (''a'', [''b'', ''x''])
     = fieldRefEvaluate ''r''
         \<lparr>docFields = [(''r'', Scalar (SString ''root'')),
                       (''a'', Object [(''r'', Scalar (SString ''inner'')),
                                       (''b'', Scalar (SInt 5))] [])],
          docMeta = []\<rparr>"
proof -
  let ?n = "ProjectionNode Inclusion samplePolicies [] [] [(''age'', ''n'')] [] [''age'']"
  let ?root = "\<lparr>docFields = [(''n'', Scalar (SInt 30))], docMeta = []\<rparr>"
  have pol: "computedFieldsPolicy samplePolicies = kAllowComputedFields"
    by (simp add: samplePolicies_def)
  have h: "applyExpressions fieldRefEvaluate ?n ?root [] = Inr [(''age'', Scalar (SInt 30))] \<and>
      ''age'' \<in> set (orderToProcessAdditionsAndChildren ?n) \<and>
      getChild ?n ''age'' = None \<and> map_of (expressions ?n) ''age'' = Some ''n''"
    by (simp add: getChild_def fieldRefEvaluate_def getField_def setField_def)
  from expression_overlay_pass
         [where ev = fieldRefEvaluate and n = ?n and root = ?root and out = "[]"
            and out' = "[(''age'', Scalar (SInt 30))]" and f = "''age''" and e = "''n''",
          THEN conjunct2, THEN conjunct1, rule_format, OF h]
  have 1: "getField [(''age'', Scalar (SInt 30))] ''age'' = fieldRefEvaluate ''n'' ?root" .
  have 2: "\<exists>t. addExpressionForPath (newNode Exclusion samplePolicies []) (''a'', [''x'']) ''a''
          = Inr t \<and>
        applyToDocument fieldRefEvaluate t
            \<lparr>docFields = [(''a'', Scalar (SInt 5))], docMeta = []\<rparr>
          = Inr \<lparr>docFields = [(''a'', Object [(''x'', Scalar (SInt 5))] [])], docMeta = []\<rparr>"
    using expression_overlay_pass
         [where ev = fieldRefEvaluate and pol = samplePolicies and m = Exclusion
            and e = "''a''" and s = "SInt 5" and md = "[]",
          THEN conjunct2, THEN conjunct2, THEN conjunct2, THEN conjunct2, THEN conjunct2,
          THEN conjunct2, THEN conjunct2, THEN conjunct1, rule_format, OF pol]
    by (simp add: fieldRefEvaluate_def getField_def)
  let ?t = "ProjectionNode Exclusion samplePolicies [] [] []
          [(''a'', ProjectionNode Exclusion samplePolicies ''a'' [] []
                     [(''b'', ProjectionNode Exclusion samplePolicies ''a.b'' []
                                [(''x'', ''r'')] [] [''x''])]
                     [''b''])]
          [''a'']"
  let ?d = "\<lparr>docFields = [(''r'', Scalar (SString ''root'')),
                     (''a'', Object [(''r'', Scalar (SString ''inner'')),
                                     (''b'', Scalar (SInt 5))] [])],
        docMeta = []\<rparr>"
  let ?o = "\<lparr>docFields = [(''r'', Scalar (SString ''root'')),
                     (''a'', Object [(''r'', Scalar (SString ''inner'')),
                                     (''b'', Object [(''x'', Scalar (SString ''root''))] [])] [])],
            docMeta = []\<rparr>"
  have proj: "applyProjections ?t (docFields ?d)
                (docFields (initializeOutputDocument (nodeMode ?t) ?d)) = docFields ?d"
    by (simp add: initializeOutputDocument_def fieldIterator_def missing_def Let_def
        applyLeafProjectionToValue_def transformSkippedValueForOutput_def
        outputProjectedField_def setField_def)
  have res: "applyToDocument fieldRefEvaluate ?t ?d = Inr ?o"
    by (simp add: applyToDocument_def Let_def copyMetaDataFrom_def
        initializeOutputDocument_def fieldIterator_def missing_def
        applyLeafProjectionToValue_def transformSkippedValueForOutput_def
        outputProjectedField_def getField_def setField_def fieldRefEvaluate_def)
  have h3: "declaredAlong ?t (''a'', [''b'', ''x'']) \<and>
      getExpressionForPath ?t (''a'', [''b'', ''x'']) = Some ''r'' \<and>
      noArrayAlong (applyProjections ?t (docFields ?d)
                      (docFields (initializeOutputDocument (nodeMode ?t) ?d)))
        (''a'', [''b'', ''x'']) \<and>
      applyToDocument fieldRefEvaluate ?t ?d = Inr ?o"
    unfolding proj using res by (simp add: getChild_def getField_def)
  from expression_overlay_pass
         [where ev = fieldRefEvaluate and n = ?t and inputDoc = ?d and outputDoc = ?o
            and p = "(''a'', [''b'', ''x''])" and e = "''r''",
          THEN conjunct2, THEN conjunct2, THEN conjunct2, THEN conjunct2, THEN conjunct2,
          THEN conjunct2, THEN conjunct2, THEN conjunct2, THEN conjunct2, THEN conjunct2,
          THEN conjunct2, rule_format, OF h3]
  have 3: "valueAtPath (docFields ?o) (''a'', [''b'', ''x'']) = fieldRefEvaluate ''r'' ?d" .
  from pol 1 2 h res 3 show ?thesis by simp
qed

section \<open>Optimize\<close>

lemma map_of_map_snd:
  "map_of (map (\<lambda>p. (fst p, g (snd p))) xs) k = map_option g (map_of xs k)"
  by (induction xs) auto

lemma optimize_sel [simp]:
  "nodeMode (optimize f n) = nodeMode n"
  "policies (optimize f n) = policies n"
  "pathToNode (optimize f n) = pathToNode n"
  "projectedFields (optimize f n) = projectedFields n"
  "orderToProcessAdditionsAndChildren (optimize f n) = orderToProcessAdditionsAndChildren n"
  "map_of (expressions (optimize f n)) k = map_option f (map_of (expressions n) k)"
  "map_of (children (optimize f n)) k = map_option (optimize f) (map_of (children n) k)"
  "expressions (optimize f n) = [] \<longleftrightarrow> expressions n = []"
  by (cases n; simp add: map_of_map_snd)+

lemma optimize_subtreeContains [simp]:
  "subtreeContainsComputedFields (optimize f n) = subtreeContainsComputedFields n"
proof (induction n)
  case (ProjectionNode m pol path pf ex ch ord)
  have "list_ex (\<lambda>childPair. subtreeContainsComputedFields (snd childPair))
          (map (\<lambda>childPair. (fst childPair, optimize f (snd childPair))) ch)
      = list_ex (\<lambda>childPair. subtreeContainsComputedFields (snd childPair)) ch"
    using ProjectionNode.IH by (auto simp: list_ex_iff snds.simps)
  then show ?case by simp
qed

lemma optimize_compose: "optimize f (optimize g n) = optimize (\<lambda>e. f (g e)) n"
proof (induction n)
  case (ProjectionNode m pol path pf ex ch ord)
  have "map (\<lambda>childPair. (fst childPair, optimize f (optimize g (snd childPair)))) ch
      = map (\<lambda>childPair. (fst childPair, optimize (\<lambda>e. f (g e)) (snd childPair))) ch"
    using ProjectionNode.IH by (auto simp: snds.simps)
  then show ?case by (simp add: comp_def)
qed

lemma optimize_treeShape: "treeShape (optimize f n) = treeShape n"
proof (induction n)
  case (ProjectionNode m pol path pf ex ch ord)
  have "map (\<lambda>childPair. (fst childPair, treeShape (optimize f (snd childPair)))) ch
      = map (\<lambda>childPair. (fst childPair, treeShape (snd childPair))) ch"
    using ProjectionNode.IH by (auto simp: snds.simps)
  then show ?case by (simp add: comp_def)
qed

lemma optimize_applyProjections_aux:
  "applyProjectionsFields (optimize f n) fs out = applyProjectionsFields n fs out"
  "applyProjections (optimize f n) inp out = applyProjections n inp out"
  "applyProjectionsToValue (optimize f n) v = applyProjectionsToValue n v"
  "applyProjectionsToArray (optimize f n) vs = applyProjectionsToArray n vs"
proof (induction n fs out and n inp out and n v and n vs
       rule: applyProjectionsFields_applyProjections_applyProjectionsToValue_applyProjectionsToArray.induct)
  case (1 n out)
  show ?case by simp
next
  case (2 n fieldName v rest out)
  then show ?case by (cases "map_of (children n) fieldName") simp_all
next
  case (3 n inputDoc out)
  then show ?case by (simp add: Let_def)
next
  case (4 n fs md)
  then show ?case by (simp add: Let_def)
next
  case (5 n vs)
  then show ?case by simp
next
  case (6 n)
  show ?case by simp
next
  case (7 n s)
  show ?case by simp
next
  case (8 n)
  show ?case by simp
next
  case (9 n v vs)
  then show ?case by (auto simp: Let_def)
qed

lemma optimize_applyExpressions_aux:
  assumes "ev' = (\<lambda>e. ev (f e))"
  shows "applyExpressionsOrder ev' n root ord out = applyExpressionsOrder ev (optimize f n) root ord out"
    and "applyExpressions ev' n root out = applyExpressions ev (optimize f n) root out"
    and "applyExpressionsToValue ev' n root v = applyExpressionsToValue ev (optimize f n) root v"
    and "applyExpressionsToArray ev' n root vs = applyExpressionsToArray ev (optimize f n) root vs"
  using assms
proof (induction ev' n root ord out and ev' n root out and ev' n root v and ev' n root vs
       rule: applyExpressionsOrder_applyExpressions_applyExpressionsToValue_applyExpressionsToArray.induct)
  case (1 ev' n root out)
  show ?case by simp
next
  case (2 ev' n root field rest out)
  show ?case
  proof (cases "map_of (children n) field")
    case None
    with 2 show ?thesis by (cases "map_of (expressions n) field") simp_all
  next
    case (Some c)
    with 2 show ?thesis
      by (cases "applyExpressionsToValue ev' c root (getField out field)") simp_all
  qed
next
  case (3 ev' n root out)
  then show ?case by simp
next
  case (4 ev' n root fs md)
  then show ?case by simp
next
  case (5 ev' n root vs)
  then show ?case by simp
next
  case (6 ev' n root)
  then show ?case by simp
next
  case (7 ev' n root s)
  then show ?case by simp
next
  case (8 ev' n root)
  show ?case by simp
next
  case (9 ev' n root v vs)
  then show ?case
    by (cases "applyExpressionsToValue ev' n root v") simp_all
qed

lemma optimize_serialize_aux:
  assumes "ser' = (\<lambda>e. ser (f e))"
  shows "serializeOrder ser' n explain ord acc = serializeOrder ser (optimize f n) explain ord acc"
    and "serializeInto ser' n explain acc = serializeInto ser (optimize f n) explain acc"
  using assms
proof (induction ser' n explain ord acc and ser' n explain acc
       rule: serializeOrder_serializeInto.induct)
  case (1 ser' n explain acc)
  show ?case by simp
next
  case (2 ser' n explain field rest acc)
  show ?case
  proof (cases "map_of (children n) field")
    case None
    with 2 show ?thesis by (cases "map_of (expressions n) field") simp_all
  next
    case (Some c)
    with 2 show ?thesis
      by (cases "serializeInto ser' c explain []") simp_all
  qed
next
  case (3 ser' n explain acc)
  then show ?case by (simp add: Let_def)
qed

lemma optimize_serialize:
  "serialize ser (optimize f n) explain = serialize (\<lambda>e. ser (f e)) n explain"
  unfolding serialize_def optimize_serialize_aux(2) [OF refl, symmetric] ..

lemma optimize_applyToDocument:
  "applyToDocument ev (optimize f n) inputDoc = applyToDocument (\<lambda>e. ev (f e)) n inputDoc"
  unfolding applyToDocument_def optimize_sel optimize_applyProjections_aux(2)
    optimize_applyExpressions_aux(2) [OF refl, symmetric] ..

lemma foldOneLevel_evaluate: "sampleEvaluate (foldOneLevel e) root = sampleEvaluate e root"
  by (induction e rule: foldOneLevel.induct) simp_all

lemma addFolded_evaluate: "sampleEvaluate (addFolded x y) root = sampleEvaluate (Add x y) root"
  by (induction x y rule: addFolded.induct) simp_all

lemma foldConstants_evaluate: "sampleEvaluate (foldConstants e) root = sampleEvaluate e root"
  by (induction e) (simp_all add: addFolded_evaluate)

lemma foldConstants_addFolded:
  "foldConstants x = x \<Longrightarrow> foldConstants y = y \<Longrightarrow> foldConstants (addFolded x y) = addFolded x y"
  by (induction x y rule: addFolded.induct) simp_all

lemma foldConstants_idempotent: "foldConstants (foldConstants e) = foldConstants e"
  by (induction e) (simp_all add: foldConstants_addFolded)

lemma optimize_preserves_apply:
  "(\<And>e root. ev (opt e) root = ev e root) \<Longrightarrow>
   applyToDocument ev (optimize opt n) inputDoc = applyToDocument ev n inputDoc"
proof -
  assume "\<And>e root. ev (opt e) root = ev e root"
  then have "(\<lambda>e. ev (opt e)) = ev" by (intro ext) simp
  then show ?thesis by (simp only: optimize_applyToDocument)
qed

text \<open>
  C7, as stated, fails. \<open>optimize\<close> replaces every expression by what
  \<open>Expression::optimize\<close> returns for it and does nothing else, so a second run
  changes the tree again whenever \<open>Expression::optimize\<close> changes an optimized
  expression. \<open>foldOneLevel\<close> keeps what every expression evaluates to, and
  it folds the sum of a sum and a literal in two runs: the tree optimized twice serializes the literal, the tree optimized once
  a sum of two literals.
\<close>

theorem optimize_idempotent_counterexample:
  "(\<forall>e root. sampleEvaluate (foldOneLevel e) root = sampleEvaluate e root) \<and>
   serialize sampleSerialize
     (optimize foldOneLevel (optimize foldOneLevel
        (ProjectionNode Inclusion samplePolicies [] []
           [(''x'', Add (Add (Literal 1) (Literal 2)) (Literal 3))] [] [''x'']))) None
   = Inr \<lparr>docFields = [(''x'', Object [(''$const'', Scalar (SInt 6))] [])], docMeta = []\<rparr> \<and>
   serialize sampleSerialize
     (optimize foldOneLevel
        (ProjectionNode Inclusion samplePolicies [] []
           [(''x'', Add (Add (Literal 1) (Literal 2)) (Literal 3))] [] [''x''])) None
   = Inr \<lparr>docFields =
            [(''x'', Object [(''$add'', Array [Object [(''$const'', Scalar (SInt 3))] [],
                                               Object [(''$const'', Scalar (SInt 3))] []])] [])],
          docMeta = []\<rparr> \<and>
   serialize sampleSerialize
     (optimize foldOneLevel (optimize foldOneLevel
        (ProjectionNode Inclusion samplePolicies [] []
           [(''x'', Add (Add (Literal 1) (Literal 2)) (Literal 3))] [] [''x'']))) None
   \<noteq> serialize sampleSerialize
     (optimize foldOneLevel
        (ProjectionNode Inclusion samplePolicies [] []
           [(''x'', Add (Add (Literal 1) (Literal 2)) (Literal 3))] [] [''x''])) None"
  by (simp add: foldOneLevel_evaluate serialize_def Let_def samplePolicies_def addField_def)

text \<open>
  C7, amended. When \<open>Expression::optimize\<close> keeps what an expression evaluates
  to, \<open>optimize\<close> does not change the result of \<open>applyToDocument\<close> on any
  document, so running it twice gives the results of running it once (for which
  it is enough that an optimized expression keeps its value when optimized
  again). When \<open>Expression::optimize\<close> leaves the serialization of an optimized
  expression unchanged, the tree optimized twice serializes as the tree optimized
  once. In any case \<open>optimize\<close> keeps the shape of the tree: children, projected
  fields and declared order.
\<close>

theorem optimize_idempotent:
  "((\<forall>e root. ev (opt e) root = ev e root) \<longrightarrow>
      applyToDocument ev (optimize opt n) inputDoc = applyToDocument ev n inputDoc \<and>
      applyToDocument ev (optimize opt (optimize opt n)) inputDoc
        = applyToDocument ev (optimize opt n) inputDoc) \<and>
   ((\<forall>e root. ev (opt (opt e)) root = ev (opt e) root) \<longrightarrow>
      applyToDocument ev (optimize opt (optimize opt n)) inputDoc
        = applyToDocument ev (optimize opt n) inputDoc) \<and>
   ((\<forall>e explainFlag. ser (opt (opt e)) explainFlag = ser (opt e) explainFlag) \<longrightarrow>
      serialize ser (optimize opt (optimize opt n)) explain
        = serialize ser (optimize opt n) explain) \<and>
   treeShape (optimize opt n) = treeShape n"
proof (intro conjI impI)
  assume p: "\<forall>e root. ev (opt e) root = ev e root"
  then show "applyToDocument ev (optimize opt n) inputDoc = applyToDocument ev n inputDoc"
    by (intro optimize_preserves_apply) simp
  from p show "applyToDocument ev (optimize opt (optimize opt n)) inputDoc
        = applyToDocument ev (optimize opt n) inputDoc"
    by (intro optimize_preserves_apply) simp
next
  assume "\<forall>e root. ev (opt (opt e)) root = ev (opt e) root"
  then have "(\<lambda>e. ev (opt (opt e))) = (\<lambda>e. ev (opt e))" by (intro ext) simp
  then show "applyToDocument ev (optimize opt (optimize opt n)) inputDoc
        = applyToDocument ev (optimize opt n) inputDoc"
    by (simp only: optimize_compose optimize_applyToDocument)
next
  assume "\<forall>e explainFlag. ser (opt (opt e)) explainFlag = ser (opt e) explainFlag"
  then have "(\<lambda>e. ser (opt (opt e))) = (\<lambda>e. ser (opt e))" by (intro ext) simp
  then show "serialize ser (optimize opt (optimize opt n)) explain
        = serialize ser (optimize opt n) explain"
    by (simp only: optimize_compose optimize_serialize)
next
  show "treeShape (optimize opt n) = treeShape n" by (rule optimize_treeShape)
qed

theorem optimize_idempotent_witness:
  "(\<forall>e root. sampleEvaluate (foldOneLevel e) root = sampleEvaluate e root) \<and>
   applyToDocument sampleEvaluate
     (optimize foldOneLevel (optimize foldOneLevel
        (ProjectionNode Inclusion samplePolicies [] []
           [(''x'', Add (Add (Literal 1) (Literal 2)) (Literal 3))] [] [''x''])))
     emptyDocument
   = Inr \<lparr>docFields = [(''x'', Scalar (SInt 6))], docMeta = []\<rparr> \<and>
   applyToDocument sampleEvaluate
     (optimize foldOneLevel
        (ProjectionNode Inclusion samplePolicies [] []
           [(''x'', Add (Add (Literal 1) (Literal 2)) (Literal 3))] [] [''x'']))
     emptyDocument
   = Inr \<lparr>docFields = [(''x'', Scalar (SInt 6))], docMeta = []\<rparr> \<and>
   (\<forall>e explainFlag. sampleSerialize (foldConstants (foldConstants e)) explainFlag
        = sampleSerialize (foldConstants e) explainFlag) \<and>
   serialize sampleSerialize
     (optimize foldConstants (optimize foldConstants
        (ProjectionNode Inclusion samplePolicies [] []
           [(''x'', Add (Add (Literal 1) (Literal 2)) (Literal 3))] [] [''x'']))) None
   = Inr \<lparr>docFields = [(''x'', Object [(''$const'', Scalar (SInt 6))] [])], docMeta = []\<rparr> \<and>
   serialize sampleSerialize
     (optimize foldConstants
        (ProjectionNode Inclusion samplePolicies [] []
           [(''x'', Add (Add (Literal 1) (Literal 2)) (Literal 3))] [] [''x''])) None
   = Inr \<lparr>docFields = [(''x'', Object [(''$const'', Scalar (SInt 6))] [])], docMeta = []\<rparr>"
proof -
  let ?t = "ProjectionNode Inclusion samplePolicies [] []
           [(''x'', Add (Add (Literal 1) (Literal 2)) (Literal 3))] [] [''x'']"
  have p: "\<forall>e root. sampleEvaluate (foldOneLevel e) root = sampleEvaluate e root"
    by (simp add: foldOneLevel_evaluate)
  have i: "\<forall>e explainFlag. sampleSerialize (foldConstants (foldConstants e)) explainFlag
        = sampleSerialize (foldConstants e) explainFlag"
    by (simp add: foldConstants_idempotent)
  from optimize_idempotent
         [where ev = sampleEvaluate and opt = foldOneLevel and n = ?t and inputDoc = emptyDocument,
          THEN conjunct1, THEN mp, OF p]
  have a: "applyToDocument sampleEvaluate (optimize foldOneLevel (optimize foldOneLevel ?t))
             emptyDocument
           = applyToDocument sampleEvaluate (optimize foldOneLevel ?t) emptyDocument"
    by (rule conjunct2)
  from optimize_idempotent
         [where ser = sampleSerialize and opt = foldConstants and n = ?t and explain = None,
          THEN conjunct2, THEN conjunct2, THEN conjunct1, THEN mp, OF i]
  have s: "serialize sampleSerialize (optimize foldConstants (optimize foldConstants ?t)) None
           = serialize sampleSerialize (optimize foldConstants ?t) None" .
  have a1: "applyToDocument sampleEvaluate (optimize foldOneLevel ?t) emptyDocument
      = Inr \<lparr>docFields = [(''x'', Scalar (SInt 6))], docMeta = []\<rparr>"
    by (simp add: applyToDocument_def Let_def samplePolicies_def initializeOutputDocument_def
        emptyDocument_def fieldIterator_def applyLeafProjectionToValue_def missing_def
        setField_def copyMetaDataFrom_def)
  have s1: "serialize sampleSerialize (optimize foldConstants ?t) None
      = Inr \<lparr>docFields = [(''x'', Object [(''$const'', Scalar (SInt 6))] [])], docMeta = []\<rparr>"
    by (simp add: serialize_def Let_def samplePolicies_def addField_def)
  from p i a s a1 s1 show ?thesis by simp
qed

section \<open>The invariant of a tree under construction\<close>

lemma covers_makeChild: "declaredOrderCovers (makeChild n f)"
  by (simp add: makeChild_def)

lemma covers_child:
  "declaredOrderCovers n \<Longrightarrow> map_of (children n) k = Some c \<Longrightarrow> declaredOrderCovers c"
  by (cases n) (auto simp: list_all_iff dest!: map_of_SomeD)

lemma set_update_subset: "(k, v) \<in> set (AList.update f c ch) \<Longrightarrow> v = c \<or> (k, v) \<in> set ch"
  by (induction ch) (auto split: if_splits)

lemma update_fresh_last:
  "f \<notin> fst ` set ch \<Longrightarrow> AList.update f c' (ch @ [(f, x)]) = ch @ [(f, c')]"
  by (induction ch) auto

lemma list_all_snd_update:
  "list_all (\<lambda>p. P (snd p)) ch \<Longrightarrow> P c' \<Longrightarrow> list_all (\<lambda>p. P (snd p)) (AList.update f c' ch)"
  by (induction ch) auto

lemma covers_descend:
  assumes n: "declaredOrderCovers n" and g: "addOrGetChild n f = Inr (n0, c)"
  shows "declaredOrderCovers c"
    and "declaredOrderCovers c' \<Longrightarrow> declaredOrderCovers (putChild n0 f c')"
proof -
  obtain m pol path pf ex ch ord where nn: "n = ProjectionNode m pol path pf ex ch ord"
    by (cases n)
  show "declaredOrderCovers c"
  proof (cases "map_of (children n) f")
    case None
    with g covers_makeChild [of n f] show ?thesis
      by (auto simp: nn addOrGetChild_def getChild_def addChild_def split: if_splits)
  next
    case (Some c0)
    with g covers_child [OF n Some] show ?thesis
      by (simp add: addOrGetChild_def getChild_def)
  qed
  assume c': "declaredOrderCovers c'"
  show "declaredOrderCovers (putChild n0 f c')"
  proof (cases "map_of ch f")
    case None
    then have nf: "f \<notin> fst ` set ch" by (simp add: map_of_eq_None_iff)
    from g None have n0: "n0 = ProjectionNode m pol path pf ex (ch @ [(f, makeChild n f)]) (ord @ [f])"
      by (auto simp: nn addOrGetChild_def getChild_def addChild_def split: if_splits)
    have up: "AList.update f c' (ch @ [(f, makeChild n f)]) = ch @ [(f, c')]"
      using nf by (rule update_fresh_last)
    have res: "putChild n0 f c' = ProjectionNode m pol path pf ex (ch @ [(f, c')]) (ord @ [f])"
      by (simp add: n0 putChild_def up)
    from n c' nf show ?thesis
      unfolding res by (auto simp: nn)
  next
    case (Some c0)
    then have inn: "f \<in> fst ` set ch" by (metis map_of_eq_None_iff option.distinct(1))
    from g Some have n0: "n0 = n" by (simp add: nn addOrGetChild_def getChild_def)
    have keys: "map fst (AList.update f c' ch) = map fst ch"
      using inn by (simp add: update_keys)
    then have keyset: "fst ` set (AList.update f c' ch) = fst ` set ch"
      by (metis image_set)
    have res: "putChild n0 f c' = ProjectionNode m pol path pf ex (AList.update f c' ch) ord"
      by (simp add: n0 nn putChild_def)
    from n c' show ?thesis
      unfolding res by (auto simp: nn keys keyset list_all_snd_update)
  qed
qed

lemma update_fresh: "f \<notin> fst ` set al \<Longrightarrow> AList.update f v al = al @ [(f, v)]"
  by (induction al) auto

lemma keyset_update: "fst ` set (AList.update f v al) = insert f (fst ` set al)"
  by (simp add: dom_update)

lemma covers_addProjection:
  "declaredOrderCovers n \<Longrightarrow> addProjectionForPath n (f, gs) = Inr n' \<Longrightarrow> declaredOrderCovers n'"
proof (induction gs arbitrary: n f n')
  case Nil
  then show ?case by (cases n) (auto simp: insertName_def)
next
  case (Cons g gs)
  from Cons.prems(2) obtain n0 c c' where
    d: "addOrGetChild n f = Inr (n0, c)" and r: "addProjectionForPath c (g, gs) = Inr c'"
    and n': "n' = putChild n0 f c'"
    by (auto split: sum.splits)
  from Cons.IH [OF covers_descend(1) [OF Cons.prems(1) d] r]
  have "declaredOrderCovers c'" .
  from covers_descend(2) [OF Cons.prems(1) d this] n' show ?case by simp
qed

lemma covers_addExpression:
  "declaredOrderCovers n \<Longrightarrow> addExpressionForPath n (f, gs) e = Inr n' \<Longrightarrow> declaredOrderCovers n'"
proof (induction gs arbitrary: n f n')
  case Nil
  then show ?case
    by (cases n) (auto simp: keyset_update distinct_update split: if_splits)
next
  case (Cons g gs)
  from Cons.prems(2) obtain n0 c c' where
    d: "addOrGetChild n f = Inr (n0, c)" and r: "addExpressionForPath c (g, gs) e = Inr c'"
    and n': "n' = putChild n0 f c'"
    by (auto split: sum.splits if_splits)
  from Cons.IH [OF covers_descend(1) [OF Cons.prems(1) d] r]
  have "declaredOrderCovers c'" .
  from covers_descend(2) [OF Cons.prems(1) d this] n' show ?case by simp
qed

lemma covers_applyAdditions:
  "declaredOrderCovers n \<Longrightarrow> applyAdditions n adds = Inr t \<Longrightarrow> declaredOrderCovers t"
proof (induction adds arbitrary: n)
  case Nil
  then show ?case by simp
next
  case (Cons a adds)
  from Cons.prems(2) obtain n' where
    a: "applyAddition n a = Inr n'" and r: "applyAdditions n' adds = Inr t"
    by (auto split: sum.splits)
  from a Cons.prems(1) have "declaredOrderCovers n'"
    by (cases a; cases "additionPath a")
       (auto dest: covers_addProjection covers_addExpression)
  from Cons.IH [OF this r] show ?case .
qed

lemma covers_resolve: "declaredOrderCovers n \<Longrightarrow> declaredNamesResolve n"
proof (induction n)
  case (ProjectionNode m pol path pf ex ch ord)
  have "list_all (\<lambda>childPair. declaredNamesResolve (snd childPair)) ch"
    using ProjectionNode by (auto simp: list_all_iff snds.simps)
  moreover have "list_all (\<lambda>field. map_of ch field \<noteq> None \<or> map_of ex field \<noteq> None) ord"
    using ProjectionNode.prems by (auto simp: list_all_iff map_of_eq_None_iff)
  ultimately show ?case by simp
qed

lemma set_leafPaths:
  "set (leafPaths n) =
     (\<lambda>f. [f]) ` set (projectedFields n) \<union> (\<lambda>f. [f]) ` fst ` set (expressions n) \<union>
     (\<Union>kc \<in> set (children n). (#) (fst kc) ` set (leafPaths (snd kc)))"
  by (cases n) (auto simp: image_iff)

lemma separated_claimed: "separatedInvariant n \<Longrightarrow> claimedInvariant n"
proof (induction n)
  case (ProjectionNode m pol path pf ex ch ord)
  have "list_all (\<lambda>childPair. claimedInvariant (snd childPair)) ch"
    using ProjectionNode by (auto simp: list_all_iff snds.simps)
  with ProjectionNode.prems show ?case by simp
qed

lemma conflicting_Cons [simp]: "conflicting (f # p) (f' # q) \<longleftrightarrow> f = f' \<and> conflicting p q"
  by (auto simp: conflicting_def)

lemma conflicting_Nil [simp]: "conflicting p []" "conflicting [] p"
  by (simp_all add: conflicting_def)

lemma separated_child:
  "separatedInvariant n \<Longrightarrow> (k, c) \<in> set (children n) \<Longrightarrow>
   separatedInvariant c \<and> leafPaths c \<noteq> []"
  by (cases n) (auto simp: list_all_iff)

lemma no_conflict_names:
  assumes n: "separatedInvariant n"
    and nc: "\<forall>q \<in> set (leafPaths n). \<not> conflicting (f # gs) q"
  shows "f \<notin> set (projectedFields n)" and "f \<notin> fst ` set (expressions n)"
    and "gs = [] \<Longrightarrow> f \<notin> fst ` set (children n)"
proof -
  show "f \<notin> set (projectedFields n)"
  proof
    assume "f \<in> set (projectedFields n)"
    then have "[f] \<in> set (leafPaths n)" by (subst set_leafPaths) simp
    with nc have "\<not> conflicting (f # gs) [f]" by blast
    then show False by simp
  qed
  show "f \<notin> fst ` set (expressions n)"
  proof
    assume "f \<in> fst ` set (expressions n)"
    then have "[f] \<in> set (leafPaths n)" by (subst set_leafPaths) simp
    with nc have "\<not> conflicting (f # gs) [f]" by blast
    then show False by simp
  qed
  assume gs: "gs = []"
  show "f \<notin> fst ` set (children n)"
  proof
    assume "f \<in> fst ` set (children n)"
    then obtain c where c: "(f, c) \<in> set (children n)" by auto
    from separated_child [OF n c] obtain q where "q \<in> set (leafPaths c)"
      by (cases "leafPaths c") auto
    with c have "f # q \<in> set (leafPaths n)" by (subst set_leafPaths) force
    with nc have "\<not> conflicting (f # gs) (f # q)" by blast
    with gs show False by simp
  qed
qed

lemma set_update_distinct:
  "distinct (map fst al) \<Longrightarrow> map_of al f = Some v0 \<Longrightarrow>
   set (AList.update f v al) = insert (f, v) (set al - {(f, v0)})"
proof (induction al)
  case Nil
  then show ?case by simp
next
  case (Cons kv al)
  obtain k w where kv: "kv = (k, w)" by (cases kv)
  show ?case
  proof (cases "k = f")
    case True
    with Cons.prems kv have "w = v0" and "f \<notin> fst ` set al" by auto
    then have "(f, v0) \<notin> set al" by force
    with True kv \<open>w = v0\<close> show ?thesis by auto
  next
    case False
    with Cons.prems kv have "distinct (map fst al)" "map_of al f = Some v0" by auto
    from Cons.IH [OF this] False kv show ?thesis by auto
  qed
qed

lemma separated_descend:
  assumes n: "separatedInvariant n" and d: "addOrGetChild n f = Inr (n0, c)"
    and nc: "\<forall>q \<in> set (leafPaths n). \<not> conflicting (f # g # gs) q"
  shows "separatedInvariant c"
    and "\<forall>q \<in> set (leafPaths c). \<not> conflicting (g # gs) q"
    and "separatedInvariant c' \<Longrightarrow> set (leafPaths c') = insert (g # gs) (set (leafPaths c)) \<Longrightarrow>
         separatedInvariant (putChild n0 f c') \<and>
         set (leafPaths (putChild n0 f c')) = insert (f # g # gs) (set (leafPaths n))"
proof -
  obtain m pol path pf ex ch ord where nn: "n = ProjectionNode m pol path pf ex ch ord"
    by (cases n)
  from no_conflict_names(1,2) [OF n nc] nn
  have fpf: "f \<notin> set pf" and fex: "f \<notin> fst ` set ex" by simp_all
  show "separatedInvariant c"
  proof (cases "map_of ch f")
    case None
    with d show ?thesis
      by (auto simp: nn addOrGetChild_def getChild_def addChild_def makeChild_def split: if_splits)
  next
    case (Some c0)
    with d have "c = c0" by (simp add: nn addOrGetChild_def getChild_def)
    with Some separated_child [OF n, of f c0] show ?thesis
      by (simp add: nn map_of_SomeD)
  qed
  show "\<forall>q \<in> set (leafPaths c). \<not> conflicting (g # gs) q"
  proof (cases "map_of ch f")
    case None
    with d have "leafPaths c = []"
      by (auto simp: nn addOrGetChild_def getChild_def addChild_def makeChild_def split: if_splits)
    then show ?thesis by simp
  next
    case (Some c0)
    with d have cc: "c = c0" by (simp add: nn addOrGetChild_def getChild_def)
    from Some have mem: "(f, c0) \<in> set (children n)" by (simp add: nn map_of_SomeD)
    show ?thesis
    proof
      fix q
      assume "q \<in> set (leafPaths c)"
      with mem cc have "f # q \<in> set (leafPaths n)" by (subst set_leafPaths) force
      with nc have "\<not> conflicting (f # g # gs) (f # q)" by blast
      then show "\<not> conflicting (g # gs) q" by simp
    qed
  qed
  assume c': "separatedInvariant c'"
    and lp: "set (leafPaths c') = insert (g # gs) (set (leafPaths c))"
  from lp have ne: "leafPaths c' \<noteq> []" by auto
  show "separatedInvariant (putChild n0 f c') \<and>
         set (leafPaths (putChild n0 f c')) = insert (f # g # gs) (set (leafPaths n))"
  proof (cases "map_of ch f")
    case None
    then have nf: "f \<notin> fst ` set ch" by (simp add: map_of_eq_None_iff)
    from d None have n0: "n0 = ProjectionNode m pol path pf ex (ch @ [(f, makeChild n f)]) (ord @ [f])"
      and cc: "leafPaths c = []"
      by (auto simp: nn addOrGetChild_def getChild_def addChild_def makeChild_def split: if_splits)
    have res: "putChild n0 f c' = ProjectionNode m pol path pf ex (ch @ [(f, c')]) (ord @ [f])"
      by (simp add: n0 putChild_def update_fresh_last [OF nf])
    from lp cc have lp': "set (leafPaths c') = {g # gs}" by simp
    have 1: "separatedInvariant (putChild n0 f c')"
      unfolding res using n c' ne nf fpf fex by (auto simp: nn)
    have 2: "set (leafPaths (putChild n0 f c')) = insert (f # g # gs) (set (leafPaths n))"
      unfolding res nn by (auto simp: lp')
    from 1 2 show ?thesis ..
  next
    case (Some c0)
    then have inn: "f \<in> fst ` set ch" by (metis map_of_eq_None_iff option.distinct(1))
    from d Some have n0: "n0 = n" and cc: "c = c0"
      by (simp_all add: nn addOrGetChild_def getChild_def)
    have res: "putChild n0 f c' = ProjectionNode m pol path pf ex (AList.update f c' ch) ord"
      by (simp add: n0 nn putChild_def)
    have keys: "map fst (AList.update f c' ch) = map fst ch"
      using inn by (simp add: update_keys)
    then have keyset: "fst ` set (AList.update f c' ch) = fst ` set ch"
      by (metis image_set)
    from n have dch: "distinct (map fst ch)" by (simp add: nn)
    have la: "list_all (\<lambda>p. separatedInvariant (snd p) \<and> leafPaths (snd p) \<noteq> [])
                (AList.update f c' ch)"
      using n c' ne
      by (intro list_all_snd_update [where P = "\<lambda>c. separatedInvariant c \<and> leafPaths c \<noteq> []"])
         (simp_all add: nn)
    have 1: "separatedInvariant (putChild n0 f c')"
      unfolding res using n la by (simp add: nn keys keyset)
    have su: "set (AList.update f c' ch) = insert (f, c') (set ch - {(f, c0)})"
      by (rule set_update_distinct [OF dch Some])
    from Some have mem: "(f, c0) \<in> set ch" by (rule map_of_SomeD)
    let ?U = "\<lambda>S. (\<Union>kc \<in> S. (#) (fst kc) ` set (leafPaths (snd kc)))"
    have old: "?U (set ch) = (#) f ` set (leafPaths c0) \<union> ?U (set ch - {(f, c0)})"
      using mem by auto
    have new: "?U (set (AList.update f c' ch))
        = (#) f ` set (leafPaths c') \<union> ?U (set ch - {(f, c0)})"
      unfolding su by auto
    have 2: "set (leafPaths (putChild n0 f c')) = insert (f # g # gs) (set (leafPaths n))"
      unfolding res nn leafPaths.simps set_append set_concat set_map image_image
      unfolding new [simplified] old [simplified] lp cc by auto
    from 1 2 show ?thesis ..
  qed
qed

lemma separated_addProjection:
  "separatedInvariant n \<Longrightarrow> \<forall>q \<in> set (leafPaths n). \<not> conflicting (f # gs) q \<Longrightarrow>
   addProjectionForPath n (f, gs) = Inr n' \<Longrightarrow>
   separatedInvariant n' \<and> set (leafPaths n') = insert (f # gs) (set (leafPaths n))"
proof (induction gs arbitrary: n f n')
  case Nil
  obtain m pol path pf ex ch ord where nn: "n = ProjectionNode m pol path pf ex ch ord"
    by (cases n)
  from no_conflict_names [OF Nil.prems(1,2)] nn
  have f: "f \<notin> set pf" "f \<notin> fst ` set ex" "f \<notin> fst ` set ch" by simp_all
  from Nil.prems(3) f have n': "n' = ProjectionNode m pol path (pf @ [f]) ex ch ord"
    by (auto simp: nn insertName_def)
  have 1: "separatedInvariant n'" using Nil.prems(1) f unfolding n' by (simp add: nn)
  have 2: "set (leafPaths n') = insert [f] (set (leafPaths n))" unfolding n' nn by simp
  from 1 2 show ?case ..
next
  case (Cons g gs)
  from Cons.prems(3) obtain n0 c c' where
    d: "addOrGetChild n f = Inr (n0, c)" and r: "addProjectionForPath c (g, gs) = Inr c'"
    and n': "n' = putChild n0 f c'"
    by (auto split: sum.splits)
  note sd = separated_descend [OF Cons.prems(1) d Cons.prems(2)]
  from Cons.IH [OF sd(1) sd(2) r]
  have "separatedInvariant c'" "set (leafPaths c') = insert (g # gs) (set (leafPaths c))"
    by simp_all
  from sd(3) [OF this] n' show ?case by simp
qed

lemma separated_addExpression:
  "separatedInvariant n \<Longrightarrow> \<forall>q \<in> set (leafPaths n). \<not> conflicting (f # gs) q \<Longrightarrow>
   addExpressionForPath n (f, gs) e = Inr n' \<Longrightarrow>
   separatedInvariant n' \<and> set (leafPaths n') = insert (f # gs) (set (leafPaths n))"
proof (induction gs arbitrary: n f n')
  case Nil
  obtain m pol path pf ex ch ord where nn: "n = ProjectionNode m pol path pf ex ch ord"
    by (cases n)
  from no_conflict_names [OF Nil.prems(1,2)] nn
  have f: "f \<notin> set pf" "f \<notin> fst ` set ex" "f \<notin> fst ` set ch" by simp_all
  from Nil.prems(3) have n': "n' = ProjectionNode m pol path pf (ex @ [(f, e)]) ch (ord @ [f])"
    by (auto simp: nn update_fresh [OF f(2)] split: if_splits)
  have 1: "separatedInvariant n'" using Nil.prems(1) f unfolding n' by (simp add: nn)
  have 2: "set (leafPaths n') = insert [f] (set (leafPaths n))" unfolding n' nn by simp
  from 1 2 show ?case ..
next
  case (Cons g gs)
  from Cons.prems(3) obtain n0 c c' where
    d: "addOrGetChild n f = Inr (n0, c)" and r: "addExpressionForPath c (g, gs) e = Inr c'"
    and n': "n' = putChild n0 f c'"
    by (auto split: sum.splits if_splits)
  note sd = separated_descend [OF Cons.prems(1) d Cons.prems(2)]
  from Cons.IH [OF sd(1) sd(2) r]
  have "separatedInvariant c'" "set (leafPaths c') = insert (g # gs) (set (leafPaths c))"
    by simp_all
  from sd(3) [OF this] n' show ?case by simp
qed

lemma conflicting_sym: "conflicting p q = conflicting q p"
  by (auto simp: conflicting_def)

lemma plainPaths_leafPaths: "q \<in> set (plainPaths n) \<Longrightarrow> q \<in> set (leafPaths n)"
proof (induction n arbitrary: q)
  case (ProjectionNode m pol path pf ex ch ord)
  from ProjectionNode.prems
  consider f where "q = [f]" "f \<in> set pf"
    | kc r where "kc \<in> set ch" "r \<in> set (plainPaths (snd kc))" "q = fst kc # r"
    by auto
  then show ?case
  proof cases
    case 1
    then show ?thesis by simp
  next
    case 2
    from ProjectionNode.IH [of kc "snd kc" r] 2 have "r \<in> set (leafPaths (snd kc))"
      by (cases kc) (auto simp: snds.simps)
    with 2 show ?thesis by auto
  qed
qed

lemma plainPaths_nonempty: "[] \<notin> set (plainPaths n)"
  by (cases n) auto

lemma update_same: "map_of al k = Some v \<Longrightarrow> AList.update k v al = al"
  by (induction al) (auto split: if_splits)

lemma addProjection_repeat:
  "distinct (map fst (children n)) \<Longrightarrow> separatedInvariant n \<Longrightarrow>
   f # gs \<in> set (plainPaths n) \<Longrightarrow> addProjectionForPath n (f, gs) = Inr n"
proof (induction gs arbitrary: n f)
  case Nil
  then show ?case using plainPaths_nonempty by (cases n) (auto simp: insertName_def)
next
  case (Cons g gs)
  obtain m pol path pf ex ch ord where nn: "n = ProjectionNode m pol path pf ex ch ord"
    by (cases n)
  from Cons.prems(3) nn obtain c where mem: "(f, c) \<in> set ch" and p: "g # gs \<in> set (plainPaths c)"
    by auto
  from Cons.prems(1) nn mem have mo: "map_of ch f = Some c" by simp
  from separated_child [OF Cons.prems(2), of f c] mem nn
  have sc: "separatedInvariant c" by simp
  then have dc: "distinct (map fst (children c))" by (cases c) simp
  from Cons.IH [OF dc sc p] have "addProjectionForPath c (g, gs) = Inr c" .
  with mo show ?case
    by (simp add: nn addOrGetChild_def getChild_def putChild_def update_same)
qed

lemma plainPaths_descend:
  assumes d: "distinct (map fst (children n))" and g: "addOrGetChild n f = Inr (n0, c)"
    and c': "set (plainPaths c') = S \<union> set (plainPaths c)"
  shows "set (plainPaths (putChild n0 f c')) = (#) f ` S \<union> set (plainPaths n)"
proof -
  obtain m pol path pf ex ch ord where nn: "n = ProjectionNode m pol path pf ex ch ord"
    by (cases n)
  show ?thesis
  proof (cases "map_of ch f")
    case None
    then have nf: "f \<notin> fst ` set ch" by (simp add: map_of_eq_None_iff)
    from g None have n0: "n0 = ProjectionNode m pol path pf ex (ch @ [(f, makeChild n f)]) (ord @ [f])"
      and cc: "plainPaths c = []"
      by (auto simp: nn addOrGetChild_def getChild_def addChild_def makeChild_def split: if_splits)
    have res: "putChild n0 f c' = ProjectionNode m pol path pf ex (ch @ [(f, c')]) (ord @ [f])"
      by (simp add: n0 putChild_def update_fresh_last [OF nf])
    from c' cc have "set (plainPaths c') = S" by simp
    then show ?thesis unfolding res nn by auto
  next
    case (Some c0)
    from g Some have n0: "n0 = n" and cc: "c = c0"
      by (simp_all add: nn addOrGetChild_def getChild_def)
    have res: "putChild n0 f c' = ProjectionNode m pol path pf ex (AList.update f c' ch) ord"
      by (simp add: n0 nn putChild_def)
    from d have dch: "distinct (map fst ch)" by (simp add: nn)
    have su: "set (AList.update f c' ch) = insert (f, c') (set ch - {(f, c0)})"
      by (rule set_update_distinct [OF dch Some])
    from Some have mem: "(f, c0) \<in> set ch" by (rule map_of_SomeD)
    let ?U = "\<lambda>T. (\<Union>kc \<in> T. (#) (fst kc) ` set (plainPaths (snd kc)))"
    have old: "?U (set ch) = (#) f ` set (plainPaths c0) \<union> ?U (set ch - {(f, c0)})"
      using mem by auto
    have new: "?U (set (AList.update f c' ch))
        = (#) f ` set (plainPaths c') \<union> ?U (set ch - {(f, c0)})"
      unfolding su by auto
    show ?thesis
      unfolding res nn plainPaths.simps set_append set_concat set_map image_image
      unfolding new [simplified] old [simplified] c' cc by auto
  qed
qed

lemma separated_distinct_children: "separatedInvariant n \<Longrightarrow> distinct (map fst (children n))"
  by (cases n) simp

lemma plainPaths_addProjection:
  "separatedInvariant n \<Longrightarrow> \<forall>q \<in> set (leafPaths n). \<not> conflicting (f # gs) q \<Longrightarrow>
   addProjectionForPath n (f, gs) = Inr n' \<Longrightarrow>
   set (plainPaths n') = insert (f # gs) (set (plainPaths n))"
proof (induction gs arbitrary: n f n')
  case Nil
  obtain m pol path pf ex ch ord where nn: "n = ProjectionNode m pol path pf ex ch ord"
    by (cases n)
  from Nil.prems(3) have n': "n' = ProjectionNode m pol path (insertName f pf) ex ch ord"
    by (auto simp: nn)
  show ?case unfolding n' nn by (auto simp: insertName_def)
next
  case (Cons g gs)
  from Cons.prems(3) obtain n0 c c' where
    d: "addOrGetChild n f = Inr (n0, c)" and r: "addProjectionForPath c (g, gs) = Inr c'"
    and n': "n' = putChild n0 f c'"
    by (auto split: sum.splits)
  note sd = separated_descend [OF Cons.prems(1) d Cons.prems(2)]
  from Cons.IH [OF sd(1) sd(2) r]
  have "set (plainPaths c') = {g # gs} \<union> set (plainPaths c)" by simp
  from plainPaths_descend [OF separated_distinct_children [OF Cons.prems(1)] d this] n'
  show ?case by simp
qed

lemma plainPaths_addExpression:
  "separatedInvariant n \<Longrightarrow> \<forall>q \<in> set (leafPaths n). \<not> conflicting (f # gs) q \<Longrightarrow>
   addExpressionForPath n (f, gs) e = Inr n' \<Longrightarrow>
   set (plainPaths n') = set (plainPaths n)"
proof (induction gs arbitrary: n f n')
  case Nil
  obtain m pol path pf ex ch ord where nn: "n = ProjectionNode m pol path pf ex ch ord"
    by (cases n)
  from Nil.prems(3)
  have n': "n' = ProjectionNode m pol path pf (AList.update f e ex) ch (ord @ [f])"
    by (auto simp: nn split: if_splits)
  show ?case unfolding n' nn by simp
next
  case (Cons g gs)
  from Cons.prems(3) obtain n0 c c' where
    d: "addOrGetChild n f = Inr (n0, c)" and r: "addExpressionForPath c (g, gs) e = Inr c'"
    and n': "n' = putChild n0 f c'"
    by (auto split: sum.splits if_splits)
  note sd = separated_descend [OF Cons.prems(1) d Cons.prems(2)]
  from Cons.IH [OF sd(1) sd(2) r]
  have "set (plainPaths c') = {} \<union> set (plainPaths c)" by simp
  from plainPaths_descend [OF separated_distinct_children [OF Cons.prems(1)] d this] n'
  show ?case by simp
qed


lemma plainPaths_applyAddition:
  assumes n: "separatedInvariant n"
    and nc: "\<forall>q \<in> set (leafPaths n). \<not> conflicting (pathComponents (additionPath a)) q"
    and a: "applyAddition n a = Inr n'"
  shows "separatedInvariant n'"
    and "set (leafPaths n') = insert (pathComponents (additionPath a)) (set (leafPaths n))"
    and "set (plainPaths n') =
           (if isProjection a then insert (pathComponents (additionPath a)) (set (plainPaths n))
            else set (plainPaths n))"
proof -
  obtain f gs where p: "additionPath a = (f, gs)" by (cases "additionPath a")
  from nc p have nc': "\<forall>q \<in> set (leafPaths n). \<not> conflicting (f # gs) q"
    by (simp add: pathComponents_def)
  have "separatedInvariant n' \<and>
        set (leafPaths n') = insert (f # gs) (set (leafPaths n)) \<and>
        set (plainPaths n') =
           (if isProjection a then insert (f # gs) (set (plainPaths n)) else set (plainPaths n))"
  proof (cases a)
    case (AddProjection p')
    with a p have r: "addProjectionForPath n (f, gs) = Inr n'" by simp
    from separated_addProjection [OF n nc' r] plainPaths_addProjection [OF n nc' r] AddProjection
    show ?thesis by simp
  next
    case (AddExpression p' e)
    with a p have r: "addExpressionForPath n (f, gs) e = Inr n'" by simp
    from separated_addExpression [OF n nc' r] plainPaths_addExpression [OF n nc' r] AddExpression
    show ?thesis by simp
  qed
  with p show "separatedInvariant n'"
    and "set (leafPaths n') = insert (pathComponents (additionPath a)) (set (leafPaths n))"
    and "set (plainPaths n') =
           (if isProjection a then insert (pathComponents (additionPath a)) (set (plainPaths n))
            else set (plainPaths n))"
    by (simp_all add: pathComponents_def)
qed

lemma separated_applyAdditions:
  "separatedInvariant n \<Longrightarrow>
   \<forall>b \<in> set adds. \<forall>q \<in> set (leafPaths n).
      (if q = pathComponents (additionPath b) then isProjection b \<and> q \<in> set (plainPaths n)
       else \<not> conflicting (pathComponents (additionPath b)) q) \<Longrightarrow>
   additionsConflictFree adds \<Longrightarrow>
   applyAdditions n adds = Inr t \<Longrightarrow> separatedInvariant t"
proof (induction adds arbitrary: n)
  case Nil
  then show ?case by simp
next
  case (Cons a adds)
  from Cons.prems(4) obtain n' where
    a: "applyAddition n a = Inr n'" and r: "applyAdditions n' adds = Inr t"
    by (auto split: sum.splits)
  let ?p = "pathComponents (additionPath a)"
  from Cons.prems(3) have free: "additionsConflictFree adds"
    and first: "\<forall>b \<in> set adds. \<not> additionsConflict a b"
    by (simp_all add: list_all_iff)
  show ?case
  proof (cases "?p \<in> set (leafPaths n)")
    case True
    with Cons.prems(2) have ip: "isProjection a" and pl: "?p \<in> set (plainPaths n)"
      by auto
    from ip obtain f gs where aa: "a = AddProjection (f, gs)" by (cases a) auto
    from pl aa have "f # gs \<in> set (plainPaths n)" by (simp add: pathComponents_def)
    from addProjection_repeat [OF separated_distinct_children [OF Cons.prems(1)] Cons.prems(1) this]
      a aa
    have "n' = n" by simp
    with Cons.IH [of n] Cons.prems(1,2) free r show ?thesis by simp
  next
    case False
    from Cons.prems(2)
    have pa: "\<forall>q \<in> set (leafPaths n).
      (if q = ?p then isProjection a \<and> q \<in> set (plainPaths n) else \<not> conflicting ?p q)"
      by simp
    have nc: "\<forall>q \<in> set (leafPaths n). \<not> conflicting ?p q"
    proof
      fix q
      assume q: "q \<in> set (leafPaths n)"
      with False have "q \<noteq> ?p" by auto
      moreover from pa q
      have "if q = ?p then isProjection a \<and> q \<in> set (plainPaths n) else \<not> conflicting ?p q"
        by blast
      ultimately show "\<not> conflicting ?p q" by simp
    qed
    note step = plainPaths_applyAddition [OF Cons.prems(1) nc a]
    have "\<forall>b \<in> set adds. \<forall>q \<in> set (leafPaths n').
      (if q = pathComponents (additionPath b) then isProjection b \<and> q \<in> set (plainPaths n')
       else \<not> conflicting (pathComponents (additionPath b)) q)"
    proof (intro ballI)
      fix b q
      assume b: "b \<in> set adds" and q: "q \<in> set (leafPaths n')"
      from q step(2) have "q = ?p \<or> q \<in> set (leafPaths n)" by auto
      then show "if q = pathComponents (additionPath b)
          then isProjection b \<and> q \<in> set (plainPaths n')
          else \<not> conflicting (pathComponents (additionPath b)) q"
      proof
        assume qp: "q = ?p"
        from first b have "\<not> additionsConflict a b" by blast
        with qp step(3) show ?thesis
          by (auto simp: additionsConflict_def conflicting_sym [of ?p] split: if_splits)
      next
        assume "q \<in> set (leafPaths n)"
        moreover from Cons.prems(2) b
        have "\<forall>q \<in> set (leafPaths n). if q = pathComponents (additionPath b)
          then isProjection b \<and> q \<in> set (plainPaths n)
          else \<not> conflicting (pathComponents (additionPath b)) q" by simp
        ultimately
        have "if q = pathComponents (additionPath b)
          then isProjection b \<and> q \<in> set (plainPaths n)
          else \<not> conflicting (pathComponents (additionPath b)) q" by blast
        with step(3) show ?thesis by (auto split: if_splits)
      qed
    qed
    from Cons.IH [OF step(1) this free r] show ?thesis .
  qed
qed

lemma getExpression_same:
  "expressions n' = expressions n \<Longrightarrow> children n' = children n \<Longrightarrow>
   getExpressionForPath n' p = getExpressionForPath n p"
  by (cases p; cases "snd p") (auto simp: getChild_def)

lemma getExpression_makeChild: "getExpressionForPath (makeChild n f) p = None"
  by (cases p; cases "snd p") (auto simp: getChild_def makeChild_def)

lemma getChild_descend:
  assumes d: "addOrGetChild n h = Inr (n0, c)"
  shows "getChild (putChild n0 h c') k = (if k = h then Some c' else getChild n k)"
    and "expressions (putChild n0 h c') = expressions n"
    and "getChild n h = Some c \<or> (getChild n h = None \<and> c = makeChild n h)"
proof -
  obtain m pol path pf ex ch ord where nn: "n = ProjectionNode m pol path pf ex ch ord"
    by (cases n)
  obtain m0 pol0 path0 pf0 ex0 ch0 ord0 where
    n0: "n0 = ProjectionNode m0 pol0 path0 pf0 ex0 ch0 ord0" by (cases n0)
  from d have e: "ex0 = ex"
    and c: "map_of ch0 k = (if k = h then Some c else map_of ch k)"
    and s: "map_of ch h = Some c \<or> (map_of ch h = None \<and> c = makeChild n h)"
    by (auto simp: nn n0 addOrGetChild_def getChild_def addChild_def map_add_def
             split: option.splits if_splits)
  from c show "getChild (putChild n0 h c') k = (if k = h then Some c' else getChild n k)"
    by (simp add: n0 nn putChild_def getChild_def update_conv')
  from e show "expressions (putChild n0 h c') = expressions n"
    by (simp add: n0 nn putChild_def)
  from s show "getChild n h = Some c \<or> (getChild n h = None \<and> c = makeChild n h)"
    by (simp add: nn getChild_def)
qed

lemma getExpression_descend:
  assumes d: "addOrGetChild n h = Inr (n0, c)"
  shows "getExpressionForPath (putChild n0 h c') (f, gs) =
           (case gs of
              [] \<Rightarrow> getExpressionForPath n (f, [])
            | g # gs' \<Rightarrow> if f = h then getExpressionForPath c' (g, gs')
                         else getExpressionForPath n (f, gs))"
    and "getExpressionForPath n (h, g # gs') = getExpressionForPath c (g, gs')"
proof -
  note gd = getChild_descend [OF d]
  show "getExpressionForPath (putChild n0 h c') (f, gs) =
           (case gs of
              [] \<Rightarrow> getExpressionForPath n (f, [])
            | g # gs' \<Rightarrow> if f = h then getExpressionForPath c' (g, gs')
                         else getExpressionForPath n (f, gs))"
    by (cases gs) (simp_all add: gd(1,2))
  from gd(3) show "getExpressionForPath n (h, g # gs') = getExpressionForPath c (g, gs')"
    by (auto simp: getExpression_makeChild)
qed

lemma getExpression_addProjection:
  "addProjectionForPath n (h, hs) = Inr n' \<Longrightarrow>
   getExpressionForPath n' (f, gs) = getExpressionForPath n (f, gs)"
proof (induction hs arbitrary: n h n' f gs)
  case Nil
  then have "expressions n' = expressions n" "children n' = children n"
    by (cases n; auto)+
  then show ?case by (rule getExpression_same)
next
  case (Cons h' hs)
  from Cons.prems obtain n0 c c' where
    d: "addOrGetChild n h = Inr (n0, c)" and r: "addProjectionForPath c (h', hs) = Inr c'"
    and n': "n' = putChild n0 h c'"
    by (auto split: sum.splits)
  note ge = getExpression_descend [OF d]
  note IH = Cons.IH [OF r]
  show ?case
  proof (cases gs)
    case Nil
    show ?thesis unfolding n' Nil ge(1) by simp
  next
    case (Cons g gs')
    from IH [of g gs'] ge(2) [of g gs']
    have "getExpressionForPath c' (g, gs') = getExpressionForPath n (h, g # gs')"
      by (simp only:)
    then show ?thesis unfolding n' Cons ge(1) by (simp del: getExpressionForPath.simps)
  qed
qed

lemma getExpression_addExpression:
  "addExpressionForPath n (h, hs) e = Inr n' \<Longrightarrow>
   getExpressionForPath n' (f, gs) =
     (if (f, gs) = (h, hs) then Some e else getExpressionForPath n (f, gs))"
proof (induction hs arbitrary: n h n' f gs)
  case Nil
  obtain m pol path pf ex ch ord where nn: "n = ProjectionNode m pol path pf ex ch ord"
    by (cases n)
  from Nil have n': "n' = ProjectionNode m pol path pf (AList.update h e ex) ch (ord @ [h])"
    by (auto simp: nn split: if_splits)
  show ?case unfolding n' nn by (cases gs) (auto simp: update_conv' getChild_def)
next
  case (Cons h' hs)
  from Cons.prems obtain n0 c c' where
    d: "addOrGetChild n h = Inr (n0, c)" and r: "addExpressionForPath c (h', hs) e = Inr c'"
    and n': "n' = putChild n0 h c'"
    by (auto split: sum.splits if_splits)
  note ge = getExpression_descend [OF d]
  note IH = Cons.IH [OF r]
  show ?case
  proof (cases gs)
    case Nil
    show ?thesis unfolding n' Nil ge(1) by simp
  next
    case (Cons g gs')
    from IH [of g gs'] ge(2) [of g gs']
    have "getExpressionForPath c' (g, gs') =
            (if (g, gs') = (h', hs) then Some e else getExpressionForPath n (h, g # gs'))"
      by (simp only:)
    then show ?thesis unfolding n' Cons ge(1) by (auto simp del: getExpressionForPath.simps)
  qed
qed

lemma getExpression_applyAddition:
  "applyAddition n a = Inr n' \<Longrightarrow>
   getExpressionForPath n' p =
     (case a of
        AddProjection q \<Rightarrow> getExpressionForPath n p
      | AddExpression q e \<Rightarrow> if p = q then Some e else getExpressionForPath n p)"
  by (cases a; cases p; cases "additionPath a")
     (auto simp: getExpression_addProjection getExpression_addExpression)

lemma getExpression_applyAdditions:
  "applyAdditions n adds = Inr t \<Longrightarrow> getExpressionForPath n p \<noteq> None \<Longrightarrow>
   getExpressionForPath t p \<noteq> None"
proof (induction adds arbitrary: n)
  case Nil
  then show ?case by simp
next
  case (Cons a adds)
  from Cons.prems(1) obtain n' where
    a: "applyAddition n a = Inr n'" and r: "applyAdditions n' adds = Inr t"
    by (auto split: sum.splits)
  from getExpression_applyAddition [OF a, of p] Cons.prems(2)
  have "getExpressionForPath n' p \<noteq> None" by (cases a) (auto split: if_splits)
  from Cons.IH [OF r this] show ?case .
qed

lemma applyAddition_descend:
  assumes "applyAddition n a = Inr n'" and "additionPath a = (f, g # gs)"
  obtains n0 c c' a' where "addOrGetChild n f = Inr (n0, c)" "applyAddition c a' = Inr c'"
    "n' = putChild n0 f c'" "additionPath a' = (g, gs)" "isProjection a' = isProjection a"
proof (cases a)
  case (AddProjection q)
  with assms obtain n0 c c' where "addOrGetChild n f = Inr (n0, c)"
    "addProjectionForPath c (g, gs) = Inr c'" "n' = putChild n0 f c'"
    by (auto split: sum.splits)
  with AddProjection show ?thesis using that [of n0 c "AddProjection (g, gs)" c'] by simp
next
  case (AddExpression q e)
  with assms obtain n0 c c' where "addOrGetChild n f = Inr (n0, c)"
    "addExpressionForPath c (g, gs) e = Inr c'" "n' = putChild n0 f c'"
    by (auto split: sum.splits if_splits)
  with AddExpression show ?thesis using that [of n0 c "AddExpression (g, gs) e" c'] by simp
qed

lemma applyAddition_leaf:
  assumes "applyAddition (ProjectionNode m pol path pf ex ch ord) a = Inr n'"
    and "additionPath a = (f, [])"
  shows "(isProjection a \<and> n' = ProjectionNode m pol path (insertName f pf) ex ch ord) \<or>
         (\<not> isProjection a \<and>
          (\<exists>e. n' = ProjectionNode m pol path pf (AList.update f e ex) ch (ord @ [f])))"
  using assms by (cases a) (auto split: if_splits)

lemma addOrGetChild_shape:
  assumes d: "addOrGetChild (ProjectionNode m pol path pf ex ch ord) f = Inr (n0, c)"
  shows "(map_of ch f = Some c \<and>
          putChild n0 f c' = ProjectionNode m pol path pf ex (AList.update f c' ch) ord) \<or>
         (map_of ch f = None \<and> c = makeChild (ProjectionNode m pol path pf ex ch ord) f \<and>
          putChild n0 f c' = ProjectionNode m pol path pf ex (ch @ [(f, c')]) (ord @ [f]))"
proof (cases "map_of ch f")
  case None
  then have nf: "f \<notin> fst ` set ch" by (simp add: map_of_eq_None_iff)
  from d None
  have n0: "n0 = ProjectionNode m pol path pf ex
                   (ch @ [(f, makeChild (ProjectionNode m pol path pf ex ch ord) f)]) (ord @ [f])"
    and cc: "c = makeChild (ProjectionNode m pol path pf ex ch ord) f"
    by (auto simp: addOrGetChild_def getChild_def addChild_def split: if_splits)
  have "putChild n0 f c' = ProjectionNode m pol path pf ex (ch @ [(f, c')]) (ord @ [f])"
    by (simp add: n0 putChild_def update_fresh_last [OF nf])
  with None cc show ?thesis by simp
next
  case (Some c0)
  with d have "n0 = ProjectionNode m pol path pf ex ch ord" and "c = c0"
    by (simp_all add: addOrGetChild_def getChild_def)
  with Some show ?thesis by (simp add: putChild_def)
qed

lemma leafPaths_child:
  assumes "(k, c) \<in> set (children n)" and "leafPaths c \<noteq> []"
  shows "leafPaths n \<noteq> []"
proof -
  from assms(2) obtain q where "q \<in> set (leafPaths c)" by (cases "leafPaths c") auto
  with assms(1) have "k # q \<in> set (leafPaths n)" by (subst set_leafPaths) force
  then show ?thesis by auto
qed

lemma update_member: "(f, v) \<in> set (AList.update f v al)"
  by (induction al) auto

lemma populated_applyAddition:
  "populated n \<Longrightarrow> applyAddition n a = Inr n' \<Longrightarrow> additionPath a = (f, gs) \<Longrightarrow>
   populated n' \<and> leafPaths n' \<noteq> []"
proof (induction gs arbitrary: n a n' f)
  case Nil
  obtain m pol path pf ex ch ord where nn: "n = ProjectionNode m pol path pf ex ch ord"
    by (cases n)
  have u: "AList.update f e ex \<noteq> []" for e by (cases ex) auto
  have i: "insertName f pf \<noteq> []" by (auto simp: insertName_def)
  from applyAddition_leaf [OF Nil.prems(2) [unfolded nn] Nil.prems(3)]
  consider "n' = ProjectionNode m pol path (insertName f pf) ex ch ord"
    | e where "n' = ProjectionNode m pol path pf (AList.update f e ex) ch (ord @ [f])"
    by blast
  then show ?case
  proof cases
    case 1
    with Nil.prems(1) i show ?thesis by (simp add: nn)
  next
    case 2
    with Nil.prems(1) u [of e] show ?thesis by (simp add: nn)
  qed
next
  case (Cons g gs)
  obtain m pol path pf ex ch ord where nn: "n = ProjectionNode m pol path pf ex ch ord"
    by (cases n)
  from Cons.prems(2,3) obtain n0 c c' a' where
    d: "addOrGetChild n f = Inr (n0, c)" and r: "applyAddition c a' = Inr c'"
    and n': "n' = putChild n0 f c'" and p: "additionPath a' = (g, gs)"
    by (rule applyAddition_descend)
  from addOrGetChild_shape [OF d [unfolded nn], of c']
  show ?case
  proof (elim disjE conjE)
    assume mo: "map_of ch f = Some c"
      and res: "putChild n0 f c' = ProjectionNode m pol path pf ex (AList.update f c' ch) ord"
    from mo Cons.prems(1) have "populated c"
      by (auto simp: nn list_all_iff dest!: map_of_SomeD)
    from Cons.IH [OF this r p] have c': "populated c'" "leafPaths c' \<noteq> []" by simp_all
    have la: "list_all (\<lambda>p. populated (snd p) \<and> leafPaths (snd p) \<noteq> []) (AList.update f c' ch)"
      using Cons.prems(1) c'
      by (intro list_all_snd_update [where P = "\<lambda>c. populated c \<and> leafPaths c \<noteq> []"])
         (simp_all add: nn)
    then have 1: "populated n'" by (simp add: n' res)
    have "(f, c') \<in> set (children n')" by (simp add: n' res update_member)
    from leafPaths_child [OF this c'(2)] 1 show ?thesis by simp
  next
    assume cc: "c = makeChild (ProjectionNode m pol path pf ex ch ord) f"
      and res: "putChild n0 f c' = ProjectionNode m pol path pf ex (ch @ [(f, c')]) (ord @ [f])"
    have "populated c" by (simp add: cc makeChild_def)
    from Cons.IH [OF this r p] have c': "populated c'" "leafPaths c' \<noteq> []" by simp_all
    with Cons.prems(1) have 1: "populated n'" by (simp add: n' res nn)
    have "(f, c') \<in> set (children n')" by (simp add: n' res)
    from leafPaths_child [OF this c'(2)] 1 show ?thesis by simp
  qed
qed

lemma separated_of_claimed:
  "claimedInvariant n \<Longrightarrow> declaredOrderCovers n \<Longrightarrow> populated n \<Longrightarrow> separatedInvariant n"
proof (induction n)
  case (ProjectionNode m pol path pf ex ch ord)
  have "list_all (\<lambda>childPair. separatedInvariant (snd childPair) \<and>
                    leafPaths (snd childPair) \<noteq> []) ch"
    using ProjectionNode by (auto simp: list_all_iff snds.simps)
  with ProjectionNode.prems show ?case by simp
qed

lemma claimed_back:
  "declaredOrderCovers n \<Longrightarrow> applyAddition n a = Inr n' \<Longrightarrow> additionPath a = (f, gs) \<Longrightarrow>
   claimedInvariant n' \<Longrightarrow> claimedInvariant n"
proof (induction gs arbitrary: n a n' f)
  case Nil
  obtain m pol path pf ex ch ord where nn: "n = ProjectionNode m pol path pf ex ch ord"
    by (cases n)
  from Nil.prems(1) have co: "set ord = fst ` set ex \<union> fst ` set ch" by (simp add: nn)
  from applyAddition_leaf [OF Nil.prems(2) [unfolded nn] Nil.prems(3)]
  consider "n' = ProjectionNode m pol path (insertName f pf) ex ch ord"
    | e where "n' = ProjectionNode m pol path pf (AList.update f e ex) ch (ord @ [f])"
    by blast
  then show ?case
  proof cases
    case 1
    have sub: "set pf \<subseteq> set (insertName f pf)" by (auto simp: insertName_def)
    from Nil.prems(4) have a: "set (insertName f pf) \<inter> fst ` set ex = {}"
      "set (insertName f pf) \<inter> fst ` set ch = {}"
      and rest: "fst ` set ex \<inter> fst ` set ch = {}" "distinct ord"
        "list_all (\<lambda>childPair. claimedInvariant (snd childPair)) ch"
      by (simp_all add: 1)
    from a sub have "set pf \<inter> fst ` set ex = {}" "set pf \<inter> fst ` set ch = {}"
      by blast+
    with rest co show ?thesis by (simp add: nn)
  next
    case 2
    have k: "fst ` set (AList.update f e ex) = insert f (fst ` set ex)"
      by (rule keyset_update)
    from Nil.prems(4) have a: "set pf \<inter> fst ` set (AList.update f e ex) = {}"
      "fst ` set (AList.update f e ex) \<inter> fst ` set ch = {}"
      and rest: "set pf \<inter> fst ` set ch = {}" "distinct ord"
        "list_all (\<lambda>childPair. claimedInvariant (snd childPair)) ch"
      by (simp_all add: 2)
    from a have "set pf \<inter> fst ` set ex = {}" "fst ` set ex \<inter> fst ` set ch = {}"
      unfolding k by blast+
    with rest co show ?thesis by (simp add: nn)
  qed
next
  case (Cons g gs)
  obtain m pol path pf ex ch ord where nn: "n = ProjectionNode m pol path pf ex ch ord"
    by (cases n)
  from Cons.prems(2,3) obtain n0 c c' a' where
    d: "addOrGetChild n f = Inr (n0, c)" and r: "applyAddition c a' = Inr c'"
    and n': "n' = putChild n0 f c'" and p: "additionPath a' = (g, gs)"
    by (rule applyAddition_descend)
  from addOrGetChild_shape [OF d [unfolded nn], of c']
  show ?case
  proof (elim disjE conjE)
    assume mo: "map_of ch f = Some c"
      and res: "putChild n0 f c' = ProjectionNode m pol path pf ex (AList.update f c' ch) ord"
    from mo have inn: "f \<in> fst ` set ch" by (metis map_of_eq_None_iff option.distinct(1))
    from Cons.prems(1) have dch: "distinct (map fst ch)" by (simp add: nn)
    have su: "set (AList.update f c' ch) = insert (f, c') (set ch - {(f, c)})"
      by (rule set_update_distinct [OF dch mo])
    have keyset: "fst ` set (AList.update f c' ch) = fst ` set ch"
      using inn by (auto simp: keyset_update)
    from Cons.prems(4) have cl: "claimedInvariant (ProjectionNode m pol path pf ex (AList.update f c' ch) ord)"
      by (simp add: n' res)
    then have "claimedInvariant c'" by (simp add: list_all_iff su)
    from mo Cons.prems(1) have "declaredOrderCovers c"
      by (auto simp: nn list_all_iff dest!: map_of_SomeD)
    from Cons.IH [OF this r p \<open>claimedInvariant c'\<close>] have cc: "claimedInvariant c" .
    have "list_all (\<lambda>childPair. claimedInvariant (snd childPair)) ch"
      unfolding list_all_iff
    proof
      fix kd assume kd: "kd \<in> set ch"
      show "claimedInvariant (snd kd)"
      proof (cases "kd = (f, c)")
        case True
        with cc show ?thesis by simp
      next
        case False
        with kd su have "kd \<in> set (AList.update f c' ch)" by simp
        with cl show ?thesis by (simp add: list_all_iff)
      qed
    qed
    with cl show ?thesis by (simp add: nn keyset)
  next
    assume res: "putChild n0 f c' = ProjectionNode m pol path pf ex (ch @ [(f, c')]) (ord @ [f])"
    from Cons.prems(4) have "claimedInvariant (ProjectionNode m pol path pf ex (ch @ [(f, c')]) (ord @ [f]))"
      by (simp add: n' res)
    with Cons.prems(1) show ?thesis by (auto simp: nn)
  qed
qed


lemma leaf_conflict_name:
  assumes q: "q \<in> set (leafPaths (ProjectionNode m pol path pf ex ch ord))"
    and c: "conflicting (f # gs) q"
  shows "f \<in> set pf \<or> f \<in> fst ` set ex \<or>
         (\<exists>d q'. (f, d) \<in> set ch \<and> q' \<in> set (leafPaths d) \<and> q = f # q' \<and> conflicting gs q')"
proof -
  from q consider x where "x \<in> set pf" "q = [x]"
    | x where "x \<in> fst ` set ex" "q = [x]"
    | x d q' where "(x, d) \<in> set ch" "q' \<in> set (leafPaths d)" "q = x # q'"
    by auto
  then show ?thesis
  proof cases
    case 1
    with c show ?thesis by simp
  next
    case 2
    with c show ?thesis by simp
  next
    case 3
    with c show ?thesis by auto
  qed
qed

lemma claimed_after_addition:
  assumes s: "separatedInvariant n" and a: "applyAddition n a = Inr n'"
    and p: "additionPath a = (f, gs)" and cl: "claimedInvariant n'"
  shows "(\<forall>q \<in> set (leafPaths n). \<not> conflicting (f # gs) q) \<or>
         (isProjection a \<and> f # gs \<in> set (plainPaths n))"
  using s a p cl
proof (induction gs arbitrary: n a n' f)
  case Nil
  obtain m pol path pf ex ch ord where nn: "n = ProjectionNode m pol path pf ex ch ord"
    by (cases n)
  from Nil.prems(1) have co: "set ord = fst ` set ex \<union> fst ` set ch" by (simp add: nn)
  from applyAddition_leaf [OF Nil.prems(2) [unfolded nn] Nil.prems(3)]
  consider "isProjection a" "n' = ProjectionNode m pol path (insertName f pf) ex ch ord"
    | e where "n' = ProjectionNode m pol path pf (AList.update f e ex) ch (ord @ [f])"
    by blast
  then show ?case
  proof cases
    case 1
    have mem: "f \<in> set (insertName f pf)" by (simp add: insertName_def)
    from Nil.prems(4) have "set (insertName f pf) \<inter> fst ` set ex = {}"
      "set (insertName f pf) \<inter> fst ` set ch = {}"
      by (simp_all add: 1)
    with mem have fe: "f \<notin> fst ` set ex" and fc: "f \<notin> fst ` set ch" by blast+
    show ?thesis
    proof (cases "f \<in> set pf")
      case True
      with 1 show ?thesis by (simp add: nn)
    next
      case False
      have "\<not> conflicting [f] q" if q: "q \<in> set (leafPaths n)" for q
      proof
        assume "conflicting [f] q"
        from leaf_conflict_name [OF q [unfolded nn] this] False fe fc
        show False by force
      qed
      then show ?thesis by blast
    qed
  next
    case 2
    have k: "fst ` set (AList.update f e ex) = insert f (fst ` set ex)"
      by (rule keyset_update)
    from Nil.prems(4) have "set pf \<inter> fst ` set (AList.update f e ex) = {}"
      and "distinct (ord @ [f])"
      by (simp_all add: 2)
    with co have fp: "f \<notin> set pf" and fe: "f \<notin> fst ` set ex" and fc: "f \<notin> fst ` set ch"
      unfolding k by auto
    have "\<not> conflicting [f] q" if q: "q \<in> set (leafPaths n)" for q
    proof
      assume "conflicting [f] q"
      from leaf_conflict_name [OF q [unfolded nn] this] fp fe fc
      show False by force
    qed
    then show ?thesis by blast
  qed
next
  case (Cons g gs)
  obtain m pol path pf ex ch ord where nn: "n = ProjectionNode m pol path pf ex ch ord"
    by (cases n)
  from Cons.prems(2,3) obtain n0 c c' a' where
    d: "addOrGetChild n f = Inr (n0, c)" and r: "applyAddition c a' = Inr c'"
    and n': "n' = putChild n0 f c'" and p: "additionPath a' = (g, gs)"
    and ip: "isProjection a' = isProjection a"
    by (rule applyAddition_descend)
  from Cons.prems(1) have dch: "distinct (map fst ch)" by (simp add: nn)
  from addOrGetChild_shape [OF d [unfolded nn], of c']
  show ?case
  proof (elim disjE conjE)
    assume mo: "map_of ch f = Some c"
      and res: "putChild n0 f c' = ProjectionNode m pol path pf ex (AList.update f c' ch) ord"
    from mo have mem: "(f, c) \<in> set ch" by (rule map_of_SomeD)
    then have inn: "f \<in> fst ` set ch" by force
    from Cons.prems(1) inn have fp: "f \<notin> set pf" and fe: "f \<notin> fst ` set ex"
      by (auto simp: nn)
    from separated_child [OF Cons.prems(1), of f c] mem have sc: "separatedInvariant c"
      by (simp add: nn)
    from Cons.prems(4) have "claimedInvariant c'"
      by (simp add: n' res list_all_iff set_update_distinct [OF dch mo])
    from Cons.IH [OF sc r p this]
    show ?thesis
    proof
      assume free: "\<forall>q \<in> set (leafPaths c). \<not> conflicting (g # gs) q"
      have "\<not> conflicting (f # g # gs) q" if q: "q \<in> set (leafPaths n)" for q
      proof
        assume "conflicting (f # g # gs) q"
        from leaf_conflict_name [OF q [unfolded nn] this] fp fe
        obtain d' q' where "(f, d') \<in> set ch" "q' \<in> set (leafPaths d')" "conflicting (g # gs) q'"
          by blast
        moreover from this(1) dch mo have "d' = c" by simp
        ultimately show False using free by blast
      qed
      then show ?thesis by blast
    next
      assume "isProjection a' \<and> g # gs \<in> set (plainPaths c)"
      with ip mem show ?thesis by (force simp: nn)
    qed
  next
    assume no: "map_of ch f = None"
      and res: "putChild n0 f c' = ProjectionNode m pol path pf ex (ch @ [(f, c')]) (ord @ [f])"
    from no have fc: "f \<notin> fst ` set ch" by (simp add: map_of_eq_None_iff)
    from Cons.prems(4) have "set pf \<inter> fst ` set (ch @ [(f, c')]) = {}"
      "fst ` set ex \<inter> fst ` set (ch @ [(f, c')]) = {}"
      by (simp_all add: n' res)
    then have fp: "f \<notin> set pf" and fe: "f \<notin> fst ` set ex" by auto
    have "\<not> conflicting (f # g # gs) q" if q: "q \<in> set (leafPaths n)" for q
    proof
      assume "conflicting (f # g # gs) q"
      from leaf_conflict_name [OF q [unfolded nn] this] fp fe fc
      show False by force
    qed
    then show ?thesis by blast
  qed
qed

lemma leaves_separate:
  "separatedInvariant n \<Longrightarrow> p \<in> set (leafPaths n) \<Longrightarrow> q \<in> set (leafPaths n) \<Longrightarrow>
   conflicting p q \<Longrightarrow> p = q"
proof (induction n arbitrary: p q)
  case (ProjectionNode m pol path pf ex ch ord)
  note s = ProjectionNode.prems(1)
  from s have dch: "distinct (map fst ch)" by simp
  from s have dis: "set pf \<inter> fst ` set ex = {}" "set pf \<inter> fst ` set ch = {}"
    "fst ` set ex \<inter> fst ` set ch = {}" by simp_all
  from ProjectionNode.prems(2) consider x where "x \<in> set pf \<or> x \<in> fst ` set ex" "p = [x]"
    | x d p' where "(x, d) \<in> set ch" "p' \<in> set (leafPaths d)" "p = x # p'"
    by auto
  then show ?case
  proof cases
    case 1
    from leaf_conflict_name [OF ProjectionNode.prems(3), of x "[]"] ProjectionNode.prems(4) 1(2)
    have "x \<in> set pf \<or> x \<in> fst ` set ex \<or>
         (\<exists>d q'. (x, d) \<in> set ch \<and> q' \<in> set (leafPaths d) \<and> q = x # q' \<and> conflicting [] q')"
      by simp
    moreover from 1(1) dis have "x \<notin> fst ` set ch" by blast
    ultimately have nc: "\<not> (\<exists>d q'. (x, d) \<in> set ch \<and> q = x # q')" by force
    from ProjectionNode.prems(3) consider y where "y \<in> set pf \<or> y \<in> fst ` set ex" "q = [y]"
      | y d q' where "(y, d) \<in> set ch" "q' \<in> set (leafPaths d)" "q = y # q'"
      by auto
    then show ?thesis
    proof cases
      case 1
      with \<open>p = [x]\<close> ProjectionNode.prems(4) show ?thesis by simp
    next
      case 2
      with \<open>p = [x]\<close> ProjectionNode.prems(4) nc show ?thesis by auto
    qed
  next
    case 2
    from 2(1) have xc: "x \<in> fst ` set ch" by force
    with dis have xp: "x \<notin> set pf" and xe: "x \<notin> fst ` set ex" by blast+
    from leaf_conflict_name [OF ProjectionNode.prems(3), of x p'] ProjectionNode.prems(4) 2(3) xp xe
    obtain d' q' where d': "(x, d') \<in> set ch" "q' \<in> set (leafPaths d')" "q = x # q'"
      "conflicting p' q'"
      by auto
    from d'(1) 2(1) dch have "d' = d" by (meson eq_key_imp_eq_value)
    from s 2(1) have "separatedInvariant d" by (auto simp: list_all_iff)
    from ProjectionNode.IH [of "(x, d)" d p' q', OF _ _ this 2(2)] 2(1) d' \<open>d' = d\<close>
    have "p' = q'" by (simp add: snds.simps)
    with 2(3) d'(3) show ?thesis by simp
  qed
qed

lemma conflictFree_of_claimed:
  "declaredOrderCovers n \<Longrightarrow> populated n \<Longrightarrow> applyAdditions n adds = Inr t \<Longrightarrow>
   claimedInvariant t \<Longrightarrow>
   claimedInvariant n \<and> additionsConflictFree adds \<and>
   (\<forall>b \<in> set adds. \<forall>q \<in> set (leafPaths n).
      (if q = pathComponents (additionPath b) then isProjection b \<and> q \<in> set (plainPaths n)
       else \<not> conflicting (pathComponents (additionPath b)) q))"
proof (induction adds arbitrary: n)
  case Nil
  then show ?case by simp
next
  case (Cons a adds)
  from Cons.prems(3) obtain n' where
    a: "applyAddition n a = Inr n'" and r: "applyAdditions n' adds = Inr t"
    by (auto split: sum.splits)
  obtain f gs where p: "additionPath a = (f, gs)" by (cases "additionPath a")
  then have pc: "pathComponents (additionPath a) = f # gs" by (simp add: pathComponents_def)
  let ?p = "pathComponents (additionPath a)"
  let ?P = "\<lambda>n b q. if q = pathComponents (additionPath b)
      then isProjection b \<and> q \<in> set (plainPaths n)
      else \<not> conflicting (pathComponents (additionPath b)) q"
  from a Cons.prems(1) have co': "declaredOrderCovers n'"
    by (cases a; cases "additionPath a")
       (auto dest: covers_addProjection covers_addExpression)
  from populated_applyAddition [OF Cons.prems(2) a p] have po': "populated n'" by simp
  from Cons.IH [OF co' po' r Cons.prems(4)]
  have cl': "claimedInvariant n'" and free: "additionsConflictFree adds"
    and rest: "\<forall>b \<in> set adds. \<forall>q \<in> set (leafPaths n'). ?P n' b q"
    by simp_all
  from claimed_back [OF Cons.prems(1) a p cl'] have cl: "claimedInvariant n" .
  from separated_of_claimed [OF cl Cons.prems(1,2)] have s: "separatedInvariant n" .
  from claimed_after_addition [OF s a p cl']
  show ?case
  proof
    assume nc: "\<forall>q \<in> set (leafPaths n). \<not> conflicting (f # gs) q"
    then have nc': "\<forall>q \<in> set (leafPaths n). \<not> conflicting ?p q" by (simp add: pc)
    note step = plainPaths_applyAddition [OF s nc' a]
    have fresh: "?p \<notin> set (leafPaths n)"
    proof
      assume "?p \<in> set (leafPaths n)"
      with nc' have "\<not> conflicting ?p ?p" by blast
      then show False by (simp add: conflicting_def)
    qed
    have 1: "?P n a q" if "q \<in> set (leafPaths n)" for q
      using that nc' fresh by auto
    have 2: "?P n b q" if b: "b \<in> set adds" and q: "q \<in> set (leafPaths n)" for b q
    proof -
      from q step(2) have "q \<in> set (leafPaths n')" by simp
      with rest b have "?P n' b q" by blast
      moreover from q fresh have "q \<noteq> ?p" by auto
      ultimately show ?thesis using step(3) by (auto split: if_splits)
    qed
    have 3: "\<not> additionsConflict a b" if b: "b \<in> set adds" for b
    proof -
      from step(2) have "?p \<in> set (leafPaths n')" by simp
      with rest b have "?P n' b ?p" by blast
      moreover have "?p \<notin> set (plainPaths n)" using fresh plainPaths_leafPaths by blast
      ultimately show ?thesis using step(3)
        by (auto simp: additionsConflict_def conflicting_sym [of ?p] split: if_splits)
    qed
    from cl free 1 2 3 show ?thesis by (simp add: list_all_iff)
  next
    assume rep: "isProjection a \<and> f # gs \<in> set (plainPaths n)"
    then obtain aa: "a = AddProjection (f, gs)" using p by (cases a) auto
    from addProjection_repeat [OF separated_distinct_children [OF s] s] rep a aa
    have same: "n' = n" by simp
    from rep have pl: "?p \<in> set (plainPaths n)" by (simp add: pc)
    then have lf: "?p \<in> set (leafPaths n)" by (rule plainPaths_leafPaths)
    have 1: "?P n a q" if q: "q \<in> set (leafPaths n)" for q
    proof (cases "q = ?p")
      case True
      with rep pl show ?thesis by simp
    next
      case False
      with leaves_separate [OF s lf q] show ?thesis by auto
    qed
    have 2: "?P n b q" if b: "b \<in> set adds" and q: "q \<in> set (leafPaths n)" for b q
      using rest b q same by blast
    have 3: "\<not> additionsConflict a b" if b: "b \<in> set adds" for b
    proof -
      from 2 [OF b lf] rep show ?thesis
        by (auto simp: additionsConflict_def conflicting_sym [of ?p] split: if_splits)
    qed
    from cl free 1 2 3 show ?thesis by (simp add: list_all_iff)
  qed
qed

lemma child_after_addition:
  "applyAddition n a = Inr n' \<Longrightarrow> additionPath a = (f, g # gs) \<Longrightarrow> getChild n' f \<noteq> None"
proof (cases a)
  case (AddProjection q)
  assume a: "applyAddition n a = Inr n'" and p: "additionPath a = (f, g # gs)"
  from a p AddProjection obtain n0 c c' where
    d: "addOrGetChild n f = Inr (n0, c)" and n': "n' = putChild n0 f c'"
    by (auto split: sum.splits)
  from getChild_descend(1) [OF d, of c' f] n' show ?thesis by simp
next
  case (AddExpression q e)
  assume a: "applyAddition n a = Inr n'" and p: "additionPath a = (f, g # gs)"
  from a p AddExpression obtain n0 c c' where
    d: "addOrGetChild n f = Inr (n0, c)" and n': "n' = putChild n0 f c'"
    by (auto split: sum.splits if_splits)
  from getChild_descend(1) [OF d, of c' f] n' show ?thesis by simp
qed

text \<open>
  C6, as stated, fails. Adding the path \<open>a.b\<close> and then the path \<open>a\<close> gives a
  root where \<open>a\<close> is a projected field and a child. Adding an expression at \<open>a\<close>
  and then one at \<open>a.b\<close> gives a root where \<open>a\<close> has a child and still has its
  expression, and stands twice in the declared order.
\<close>

theorem build_invariant_counterexample:
  "applyAdditions (newNode Inclusion samplePolicies [])
       [AddProjection (''a'', [''b'']), AddProjection (''a'', [])]
     = Inr (ProjectionNode Inclusion samplePolicies [] [''a''] []
              [(''a'', ProjectionNode Inclusion samplePolicies ''a'' [''b''] [] [] [])]
              [''a''] :: int ProjectionNode) \<and>
   \<not> claimedInvariant
       (ProjectionNode Inclusion samplePolicies [] [''a''] []
          [(''a'', ProjectionNode Inclusion samplePolicies ''a'' [''b''] [] [] [])]
          [''a''] :: int ProjectionNode) \<and>
   applyAdditions (newNode Inclusion samplePolicies [])
       [AddExpression (''a'', []) 1, AddExpression (''a'', [''b'']) 2]
     = Inr (ProjectionNode Inclusion samplePolicies [] [] [(''a'', 1)]
              [(''a'', ProjectionNode Inclusion samplePolicies ''a'' [] [(''b'', 2)] [] [''b''])]
              [''a'', ''a''] :: int ProjectionNode) \<and>
   \<not> claimedInvariant
       (ProjectionNode Inclusion samplePolicies [] [] [(''a'', 1)]
          [(''a'', ProjectionNode Inclusion samplePolicies ''a'' [] [(''b'', 2)] [] [''b''])]
          [''a'', ''a''] :: int ProjectionNode)"
  by (simp add: newNode_def samplePolicies_def addOrGetChild_def getChild_def addChild_def
      makeChild_def putChild_def insertName_def getFullyQualifiedPath_def)

text \<open>
  C6, amended. After any sequence of \<open>addProjectionForPath\<close> and
  \<open>addExpressionForPath\<close> calls that return, on a new node, at every node the
  names of the declared order are exactly the names that have an expression or a
  child, and the projected fields, the expressions and the children each hold a
  name once. At every node a name is in at most one of the three, and the declared
  order holds each of its names once, exactly when no two of the calls conflict;
  two calls conflict when the path of one is a proper prefix of the path of the
  other, or when they have the same path and are not both
  \<open>addProjectionForPath\<close>. A call that returns leaves \<open>getExpressionForPath\<close> as
  it was at every path, except that \<open>addExpressionForPath\<close> sets it at its own
  path; so a path that has an expression has one after any sequence of calls that
  return. A call that returns with a path of two or more components leaves a
  child under the first component, also when that name has an expression.
\<close>

theorem build_invariant:
  "(applyAdditions (newNode m pol path) adds = Inr t \<longrightarrow>
      declaredOrderCovers t \<and> (claimedInvariant t \<longleftrightarrow> additionsConflictFree adds)) \<and>
   (applyAddition n a = Inr n' \<longrightarrow>
      getExpressionForPath n' p =
        (case a of
           AddProjection q \<Rightarrow> getExpressionForPath n p
         | AddExpression q e \<Rightarrow> if p = q then Some e else getExpressionForPath n p)) \<and>
   (applyAdditions n adds = Inr t' \<and> getExpressionForPath n p \<noteq> None \<longrightarrow>
      getExpressionForPath t' p \<noteq> None) \<and>
   (applyAddition n a = Inr n' \<and> additionPath a = (f, g # gs) \<longrightarrow> getChild n' f \<noteq> None)"
proof (intro conjI impI)
  assume r: "applyAdditions (newNode m pol path) adds = Inr t"
  have "declaredOrderCovers (newNode m pol path :: 'a ProjectionNode)"
    by (simp add: newNode_def)
  from covers_applyAdditions [OF this r] show "declaredOrderCovers t" .
  have s: "separatedInvariant (newNode m pol path :: 'a ProjectionNode)"
    and l: "leafPaths (newNode m pol path :: 'a ProjectionNode) = []"
    and c: "declaredOrderCovers (newNode m pol path :: 'a ProjectionNode)"
    and o: "populated (newNode m pol path :: 'a ProjectionNode)"
    by (simp_all add: newNode_def)
  show "claimedInvariant t \<longleftrightarrow> additionsConflictFree adds"
  proof
    assume "claimedInvariant t"
    from conflictFree_of_claimed [OF c o r this] show "additionsConflictFree adds" by simp
  next
    assume cf: "additionsConflictFree adds"
    from separated_applyAdditions [OF s _ cf r] l have "separatedInvariant t" by simp
    then show "claimedInvariant t" by (rule separated_claimed)
  qed
next
  assume "applyAddition n a = Inr n'"
  then show "getExpressionForPath n' p =
        (case a of
           AddProjection q \<Rightarrow> getExpressionForPath n p
         | AddExpression q e \<Rightarrow> if p = q then Some e else getExpressionForPath n p)"
    by (rule getExpression_applyAddition)
next
  assume "applyAdditions n adds = Inr t' \<and> getExpressionForPath n p \<noteq> None"
  then show "getExpressionForPath t' p \<noteq> None"
    using getExpression_applyAdditions [of n adds t' p] by blast
next
  assume "applyAddition n a = Inr n' \<and> additionPath a = (f, g # gs)"
  then show "getChild n' f \<noteq> None"
    using child_after_addition [of n a n' f g gs] by blast
qed

theorem build_invariant_witness:
  "applyAdditions (newNode Inclusion samplePolicies [])
       [AddProjection (''_id'', []), AddProjection (''a'', [''b'']),
        AddExpression (''a'', [''c'']) 5, AddExpression (''age'', []) 30,
        AddProjection (''a'', [''b''])]
     = Inr (ProjectionNode Inclusion samplePolicies [] [''_id''] [(''age'', 30)]
              [(''a'', ProjectionNode Inclusion samplePolicies ''a'' [''b''] [(''c'', 5)] []
                         [''c''])]
              [''a'', ''age''] :: int ProjectionNode) \<and>
   additionsConflictFree
       [AddProjection (''_id'', []), AddProjection (''a'', [''b'']),
        AddExpression (''a'', [''c'']) (5 :: int), AddExpression (''age'', []) 30,
        AddProjection (''a'', [''b''])] \<and>
   declaredOrderCovers
       (ProjectionNode Inclusion samplePolicies [] [''_id''] [(''age'', 30)]
          [(''a'', ProjectionNode Inclusion samplePolicies ''a'' [''b''] [(''c'', 5)] []
                     [''c''])]
          [''a'', ''age''] :: int ProjectionNode) \<and>
   claimedInvariant
       (ProjectionNode Inclusion samplePolicies [] [''_id''] [(''age'', 30)]
          [(''a'', ProjectionNode Inclusion samplePolicies ''a'' [''b''] [(''c'', 5)] []
                     [''c''])]
          [''a'', ''age''] :: int ProjectionNode) \<and>
   applyAddition
       (ProjectionNode Inclusion samplePolicies [] [] [(''a'', 1)] [] [''a''] :: int ProjectionNode)
       (AddExpression (''a'', [''b'']) 2)
     = Inr (ProjectionNode Inclusion samplePolicies [] [] [(''a'', 1)]
              [(''a'', ProjectionNode Inclusion samplePolicies ''a'' [] [(''b'', 2)] [] [''b''])]
              [''a'', ''a'']) \<and>
   getExpressionForPath
       (ProjectionNode Inclusion samplePolicies [] [] [(''a'', 1)]
          [(''a'', ProjectionNode Inclusion samplePolicies ''a'' [] [(''b'', 2)] [] [''b''])]
          [''a'', ''a''] :: int ProjectionNode) (''a'', []) = Some 1 \<and>
   getExpressionForPath
       (ProjectionNode Inclusion samplePolicies [] [] [(''a'', 1)]
          [(''a'', ProjectionNode Inclusion samplePolicies ''a'' [] [(''b'', 2)] [] [''b''])]
          [''a'', ''a''] :: int ProjectionNode) (''a'', [''b'']) = Some 2 \<and>
   getChild
       (ProjectionNode Inclusion samplePolicies [] [] [(''a'', 1)]
          [(''a'', ProjectionNode Inclusion samplePolicies ''a'' [] [(''b'', 2)] [] [''b''])]
          [''a'', ''a''] :: int ProjectionNode) ''a'' \<noteq> None \<and>
   applyAdditions
       (ProjectionNode Inclusion samplePolicies [] [] [(''a'', 1)] [] [''a''] :: int ProjectionNode)
       [AddExpression (''a'', [''b'']) 2, AddProjection (''a'', [])]
     = Inr (ProjectionNode Inclusion samplePolicies [] [''a''] [(''a'', 1)]
              [(''a'', ProjectionNode Inclusion samplePolicies ''a'' [] [(''b'', 2)] [] [''b''])]
              [''a'', ''a'']) \<and>
   getExpressionForPath
       (ProjectionNode Inclusion samplePolicies [] [''a''] [(''a'', 1)]
          [(''a'', ProjectionNode Inclusion samplePolicies ''a'' [] [(''b'', 2)] [] [''b''])]
          [''a'', ''a''] :: int ProjectionNode) (''a'', []) \<noteq> None"
proof -
  let ?adds = "[AddProjection (''_id'', []), AddProjection (''a'', [''b'']),
        AddExpression (''a'', [''c'']) (5 :: int), AddExpression (''age'', []) 30,
        AddProjection (''a'', [''b''])]"
  let ?t = "ProjectionNode Inclusion samplePolicies [] [''_id''] [(''age'', 30)]
              [(''a'', ProjectionNode Inclusion samplePolicies ''a'' [''b''] [(''c'', 5)] []
                         [''c''])]
              [''a'', ''age''] :: int ProjectionNode"
  let ?n = "ProjectionNode Inclusion samplePolicies [] [] [(''a'', 1)] [] [''a''] :: int ProjectionNode"
  let ?a = "AddExpression (''a'', [''b'']) (2 :: int)"
  let ?n' = "ProjectionNode Inclusion samplePolicies [] [] [(''a'', 1)]
              [(''a'', ProjectionNode Inclusion samplePolicies ''a'' [] [(''b'', 2)] [] [''b''])]
              [''a'', ''a''] :: int ProjectionNode"
  let ?adds2 = "[?a, AddProjection (''a'', [])]"
  let ?t' = "ProjectionNode Inclusion samplePolicies [] [''a''] [(''a'', 1)]
              [(''a'', ProjectionNode Inclusion samplePolicies ''a'' [] [(''b'', 2)] [] [''b''])]
              [''a'', ''a''] :: int ProjectionNode"
  have r: "applyAdditions (newNode Inclusion samplePolicies []) ?adds = Inr ?t"
    by (simp add: newNode_def samplePolicies_def addOrGetChild_def getChild_def addChild_def
        makeChild_def putChild_def insertName_def getFullyQualifiedPath_def)
  have cf: "additionsConflictFree ?adds"
    by (simp add: additionsConflict_def pathComponents_def conflicting_def)
  have a: "applyAddition ?n ?a = Inr ?n'"
    by (simp add: samplePolicies_def addOrGetChild_def getChild_def addChild_def
        makeChild_def putChild_def getFullyQualifiedPath_def)
  have r2: "applyAdditions ?n ?adds2 = Inr ?t'"
    by (simp add: samplePolicies_def addOrGetChild_def getChild_def addChild_def
        makeChild_def putChild_def insertName_def getFullyQualifiedPath_def)
  have g: "getExpressionForPath ?n (''a'', []) \<noteq> None" by simp
  have p: "additionPath ?a = (''a'', ''b'' # [])" by simp
  from build_invariant [where adds = ?adds and t = ?t and m = Inclusion
         and pol = samplePolicies and path = "[]", THEN conjunct1, THEN mp, OF r]
  have "declaredOrderCovers ?t \<and> (claimedInvariant ?t \<longleftrightarrow> additionsConflictFree ?adds)" .
  with cf have 1: "declaredOrderCovers ?t \<and> claimedInvariant ?t" by (simp only: simp_thms)
  from build_invariant [where n = ?n and a = ?a and n' = ?n' and p = "(''a'', [])",
         THEN conjunct2, THEN conjunct1, THEN mp, OF a]
  have 2: "getExpressionForPath ?n' (''a'', []) = Some 1" by simp
  from build_invariant [where n = ?n and a = ?a and n' = ?n' and p = "(''a'', [''b''])",
         THEN conjunct2, THEN conjunct1, THEN mp, OF a]
  have 3: "getExpressionForPath ?n' (''a'', [''b'']) = Some 2" by simp
  from build_invariant [where n = ?n and adds = ?adds2 and t' = ?t' and p = "(''a'', [])",
         THEN conjunct2, THEN conjunct2, THEN conjunct1, THEN mp, OF conjI, OF r2 g]
  have 4: "getExpressionForPath ?t' (''a'', []) \<noteq> None" .
  from build_invariant [where n = ?n and a = ?a and n' = ?n' and f = "''a''" and g = "''b''"
         and gs = "[]", THEN conjunct2, THEN conjunct2, THEN conjunct2, THEN mp, OF conjI, OF a p]
  have 5: "getChild ?n' ''a'' \<noteq> None" .
  from r cf 1 a 2 3 4 5 r2 show ?thesis by (simp only: simp_thms)
qed

end
